theory Spec2Isabelle
  imports Complex_Main
begin

section \<open>Numbers and failures\<close>

text \<open>
  JavaScript numbers are modelled as real numbers. A call that throws is a value
  \<open>Inl e\<close>. Reading an array past its end gives \<open>undefined\<close> in the source and the
  arithmetic that follows gives \<open>NaN\<close>; such a computation has left the real numbers
  and is the value \<open>Inl NonNumeric\<close>.
\<close>

datatype error =
    TypeError
  | RangeError
  | SnapshotLayerMissing
  | SnapshotShapeMismatch nat
  | NonNumeric

text \<open>
  \<open>Math.exp\<close>: the real exponential, except that the IEEE double result underflows to
  exactly \<open>0\<close> for arguments below \<open>-746\<close>; the masking in \<open>softmax\<close> relies on it.
\<close>

definition math_exp :: "real \<Rightarrow> real" where
  "math_exp x = (if x < - 746 then 0 else exp x)"

text \<open>\<open>Math.random\<close>: an explicit source of numbers, consumed from index 0.\<close>

type_synonym random_source = "nat \<Rightarrow> real"

definition advance :: "nat \<Rightarrow> random_source \<Rightarrow> random_source" where
  "advance n r = (\<lambda>k. r (k + n))"

fun collect :: "(error + 'a) list \<Rightarrow> error + 'a list" where
  "collect [] = Inr []"
| "collect (x # xs) =
     (case x of Inl e \<Rightarrow> Inl e
      | Inr v \<Rightarrow> (case collect xs of Inl e \<Rightarrow> Inl e | Inr vs \<Rightarrow> Inr (v # vs)))"

text \<open>
  A policy \<open>p\<close> is a distribution over the legal moves of a mask \<open>m\<close>: it sums to 1 over
  the indices where the mask is 1 and is 0 at every index where the mask is 0.
\<close>

definition legal_distribution :: "real list \<Rightarrow> real list \<Rightarrow> bool" where
  "legal_distribution p m \<longleftrightarrow>
     length p = length m
     \<and> sum_list (map (\<lambda>i. if m ! i = 1 then p ! i else 0) [0..<length p]) = 1
     \<and> list_all (\<lambda>i. m ! i = 0 \<longrightarrow> p ! i = 0) [0..<length p]"

section \<open>The network (neuralNetwork.ts)\<close>

record NetworkConfig =
  inputSize :: int
  hiddenLayers :: "int list"
  outputSize :: int
  learningRate :: real
  valueLossWeight :: "real option"
  weightDecay :: "real option"
  gradientClip :: "real option"
  dropout :: "real option"

record Layer =
  weights :: "real list list"
  biases :: "real list"
  weightDeltas :: "real list list"
  biasDeltas :: "real list"
  inputActivation :: "real list"
  outputActivation :: "real list"

record NeuralNetwork =
  config :: NetworkConfig
  layers :: "Layer list"
  valueHead :: Layer
  trainingCount :: int
  lastHiddenActivation :: "real list"
  nn_valueLossWeight :: real
  nn_weightDecay :: real
  nn_gradientClip :: real
  currentLearningRate :: real
  nn_dropout :: real
  isTraining :: bool
  dropoutMasks :: "real list list"

record ForwardResult =
  out_policy :: "real list"
  out_value :: real

definition relu :: "real \<Rightarrow> real" where
  "relu x = max 0 x"

definition reluDerivative :: "real \<Rightarrow> real" where
  "reluDerivative x = (if x > 0 then 1 else 0)"

definition clipGradient :: "NeuralNetwork \<Rightarrow> real \<Rightarrow> real" where
  "clipGradient nn grad = max (- nn_gradientClip nn) (min (nn_gradientClip nn) grad)"

fun list_max :: "real list \<Rightarrow> real" where
  "list_max [] = 0"
| "list_max [x] = x"
| "list_max (x # y # ys) = max x (list_max (y # ys))"

text \<open>\<open>mask && mask[i] === 0\<close>: an absent mask, or a mask too short, masks nothing.\<close>

definition masked :: "real list option \<Rightarrow> nat \<Rightarrow> bool" where
  "masked msk i = (case msk of None \<Rightarrow> False | Some m \<Rightarrow> i < length m \<and> m ! i = 0)"

text \<open>
  \<open>softmax\<close>. With no logits \<open>Math.max()\<close> is \<open>-Infinity\<close> and every array is empty.
  \<open>sum || 1\<close> replaces a zero sum by 1.
\<close>

definition softmax :: "real list \<Rightarrow> real list option \<Rightarrow> real list" where
  "softmax logits msk =
     (let adjusted = map (\<lambda>i. if masked msk i then - 1000000000 else logits ! i)
                         [0..<length logits]
      in if adjusted = [] then []
         else
           let maxLogit = list_max adjusted;
               exps = map (\<lambda>v. math_exp (v - maxLogit)) adjusted;
               s = foldl (+) 0 exps;
               total = (if s = 0 then 1 else s)
           in map (\<lambda>v. v / total) exps)"

definition setTraining :: "bool \<Rightarrow> NeuralNetwork \<Rightarrow> NeuralNetwork" where
  "setTraining training nn = nn\<lparr>isTraining := training\<rparr>"

definition generateDropoutMask ::
  "NeuralNetwork \<Rightarrow> nat \<Rightarrow> random_source \<Rightarrow> real list \<times> random_source" where
  "generateDropoutMask nn n r =
     (if \<not> isTraining nn \<or> nn_dropout nn \<le> 0 then (replicate n 1, r)
      else
        let scale = 1 / (1 - nn_dropout nn)
        in (map (\<lambda>k. if r k > nn_dropout nn then scale else 0) [0..<n], advance n r))"

text \<open>
  One output unit \<open>j\<close> of a layer: \<open>sum = biases[j]; sum += activation[i] * weights[i][j]\<close>
  for every \<open>i\<close> below \<open>activation.length\<close>. \<open>weights[i]\<close> past the last row is
  \<open>undefined\<close> and indexing it throws; a missing bias or a short row gives \<open>NaN\<close>, with
  which the source goes on and the model stops. The sum is the exact one: the rounding of
  the doubles is not modelled, and a sum that leaves their range (\<open>Infinity\<close> in the
  source) is outside the model; \<open>in_double_range\<close> below says when it does not.
\<close>

definition affine_unit :: "Layer \<Rightarrow> real list \<Rightarrow> nat \<Rightarrow> error + real" where
  "affine_unit layer activation j =
     (if length (weights layer) < length activation then Inl TypeError
      else if j < length (biases layer)
              \<and> list_all (\<lambda>i. j < length (weights layer ! i)) [0..<length activation]
      then Inr (foldl (\<lambda>acc i. acc + activation ! i * (weights layer ! i ! j))
                      (biases layer ! j) [0..<length activation])
      else Inl NonNumeric)"

text \<open>
  The loop over the output units of a layer, \<open>j < layer.weights[0].length\<close>; the
  length of \<open>weights[0]\<close> of an empty matrix throws.
\<close>

definition layer_outputs :: "Layer \<Rightarrow> real list \<Rightarrow> error + real list" where
  "layer_outputs layer activation =
     (case weights layer of
        [] \<Rightarrow> Inl TypeError
      | row0 # _ \<Rightarrow> collect (map (affine_unit layer activation) [0..<length row0]))"

text \<open>
  The hidden trunk of \<open>forward\<close>: the loop over \<open>layers[0 .. length - 2]\<close>, returning the
  layers with their cached activations, the dropout masks, the last activation and the
  random source.
\<close>

fun forward_trunk ::
  "NeuralNetwork \<Rightarrow> Layer list \<Rightarrow> real list \<Rightarrow> random_source \<Rightarrow>
   error + (Layer list \<times> real list list \<times> real list \<times> random_source)" where
  "forward_trunk nn [] activation r = Inr ([], [], activation, r)"
| "forward_trunk nn (layer # rest) activation r =
     (case layer_outputs layer activation of
        Inl e \<Rightarrow> Inl e
      | Inr units \<Rightarrow>
         (let next = map relu units;
              (dropoutMask, r') = generateDropoutMask nn (length next) r;
              droppedNext = map (\<lambda>(v, m). v * m) (zip next dropoutMask);
              layer' = layer\<lparr>inputActivation := activation,
                            outputActivation := droppedNext\<rparr>
          in (case forward_trunk nn rest droppedNext r' of
                Inl e \<Rightarrow> Inl e
              | Inr (ls, ms, act, r2) \<Rightarrow>
                  Inr (layer' # ls, dropoutMask # ms, act, r2))))"

definition forward ::
  "NeuralNetwork \<Rightarrow> random_source \<Rightarrow> real list \<Rightarrow> real list option \<Rightarrow>
   error + (ForwardResult \<times> NeuralNetwork \<times> random_source)" where
  "forward nn r input msk =
     (if layers nn = [] then Inl TypeError
      else
       (case forward_trunk nn (butlast (layers nn)) input r of
          Inl e \<Rightarrow> Inl e
        | Inr (trunk, masks, activation, r') \<Rightarrow>
           (let policyLayer = last (layers nn)
            in (case layer_outputs policyLayer activation of
                  Inl e \<Rightarrow> Inl e
                | Inr policyLogits \<Rightarrow>
                   (let policy = softmax policyLogits msk
                    in (case affine_unit (valueHead nn) activation 0 of
                          Inl e \<Rightarrow> Inl e
                        | Inr valueSum \<Rightarrow>
                           (let value = tanh valueSum;
                                nn' = nn
                                  \<lparr>layers := trunk @
                                      [policyLayer\<lparr>inputActivation := activation,
                                                   outputActivation := policy\<rparr>],
                                   valueHead := (valueHead nn)
                                      \<lparr>inputActivation := activation,
                                       outputActivation := [value]\<rparr>,
                                   lastHiddenActivation := activation,
                                   dropoutMasks := masks\<rparr>
                            in Inr (\<lparr>out_policy = policy, out_value = value\<rparr>,
                                    nn', r'))))))))"

subsection \<open>Construction\<close>

text \<open>
  \<open>new Layer(inputSize, outputSize)\<close>. The sizes are integers. \<open>Array(n)\<close> throws a
  RangeError unless \<open>n\<close> is a length of an array, from 0 to \<open>2^32 - 1\<close>; nothing else is
  checked. The memory that an array takes is not modelled. The weights are drawn row by
  row.
\<close>

definition new_Layer :: "int \<Rightarrow> int \<Rightarrow> random_source \<Rightarrow> error + (Layer \<times> random_source)" where
  "new_Layer inS outS r =
     (if inS < 0 \<or> 4294967296 \<le> inS \<or> outS < 0 \<or> 4294967296 \<le> outS then Inl RangeError
      else
        let limit = sqrt (6 / real_of_int (inS + outS));
            n = nat inS;
            k = nat outS
        in Inr (\<lparr>weights = map (\<lambda>i. map (\<lambda>j. (r (i * k + j) * 2 - 1) * limit) [0..<k])
                               [0..<n],
                 biases = replicate k 0,
                 weightDeltas = replicate n (replicate k 0),
                 biasDeltas = replicate k 0,
                 inputActivation = [],
                 outputActivation = []\<rparr>,
                advance (n * k) r))"

text \<open>The loop \<open>layers.push(new Layer(hiddenSizes[i], hiddenSizes[i + 1]))\<close>.\<close>

fun build_trunk :: "int list \<Rightarrow> random_source \<Rightarrow> error + (Layer list \<times> random_source)" where
  "build_trunk (a # b # rest) r =
     (case new_Layer a b r of
        Inl e \<Rightarrow> Inl e
      | Inr (l, r') \<Rightarrow>
         (case build_trunk (b # rest) r' of
            Inl e \<Rightarrow> Inl e
          | Inr (ls, r2) \<Rightarrow> Inr (l # ls, r2)))"
| "build_trunk _ r = Inr ([], r)"

definition NeuralNetwork_new ::
  "NetworkConfig \<Rightarrow> random_source \<Rightarrow> error + (NeuralNetwork \<times> random_source)" where
  "NeuralNetwork_new cfg r =
     (let sizes = inputSize cfg # hiddenLayers cfg @ [outputSize cfg];
          hiddenSizes = butlast sizes
      in (case build_trunk hiddenSizes r of
            Inl e \<Rightarrow> Inl e
          | Inr (trunk, r1) \<Rightarrow>
             (let lastHidden = (if length hiddenSizes > 0 then last hiddenSizes
                                else inputSize cfg)
              in (case new_Layer lastHidden (outputSize cfg) r1 of
                    Inl e \<Rightarrow> Inl e
                  | Inr (policyHead, r2) \<Rightarrow>
                     (case new_Layer lastHidden 1 r2 of
                        Inl e \<Rightarrow> Inl e
                      | Inr (vHead, r3) \<Rightarrow>
                         Inr (\<lparr>config = cfg,
                               layers = trunk @ [policyHead],
                               valueHead = vHead,
                               trainingCount = 0,
                               lastHiddenActivation = [],
                               nn_valueLossWeight =
                                 (case valueLossWeight cfg of None \<Rightarrow> 0.5 | Some v \<Rightarrow> v),
                               nn_weightDecay =
                                 (case weightDecay cfg of None \<Rightarrow> 0.0005 | Some v \<Rightarrow> v),
                               nn_gradientClip =
                                 (case gradientClip cfg of None \<Rightarrow> 5.0 | Some v \<Rightarrow> v),
                               currentLearningRate = learningRate cfg,
                               nn_dropout =
                                 (case dropout cfg of None \<Rightarrow> 0.15 | Some v \<Rightarrow> v),
                               isTraining = False,
                               dropoutMasks = []\<rparr>, r3))))))"

subsection \<open>Backpropagation and training\<close>

text \<open>
  The update of one weight matrix: for every \<open>i < prev.length\<close> and \<open>j < delta.length\<close>,
  \<open>grad = clipGradient(delta[j] * prev[i])\<close> and
  \<open>weights[i][j] = weights[i][j] * (1 - lr * weightDecay) - lr * grad\<close>.
  The gradient term of the step is \<open>lr * grad\<close>.
\<close>

definition gradient_term :: "NeuralNetwork \<Rightarrow> real \<Rightarrow> real" where
  "gradient_term nn g = currentLearningRate nn * clipGradient nn g"

definition decayed :: "NeuralNetwork \<Rightarrow> real \<Rightarrow> real" where
  "decayed nn w = w * (1 - currentLearningRate nn * nn_weightDecay nn)"

definition update_weights ::
  "NeuralNetwork \<Rightarrow> real list \<Rightarrow> real list \<Rightarrow> real list list \<Rightarrow> error + real list list" where
  "update_weights nn delta prev w =
     (if delta \<noteq> [] \<and> length w < length prev then Inl TypeError
      else if list_ex (\<lambda>i. length (w ! i) < length delta) [0..<length prev]
      then Inl NonNumeric
      else Inr (map (\<lambda>i. if i < length prev
                          then map (\<lambda>j. if j < length delta
                                         then decayed nn (w ! i ! j)
                                              - gradient_term nn (delta ! j * prev ! i)
                                         else w ! i ! j)
                                   [0..<length (w ! i)]
                          else w ! i)
                    [0..<length w]))"

definition update_biases :: "NeuralNetwork \<Rightarrow> real list \<Rightarrow> real list \<Rightarrow> error + real list" where
  "update_biases nn delta b =
     (if length b < length delta then Inl NonNumeric
      else Inr (map (\<lambda>j. if j < length delta then b ! j - gradient_term nn (delta ! j)
                          else b ! j)
                    [0..<length b]))"

definition weight_deltas :: "NeuralNetwork \<Rightarrow> real list \<Rightarrow> real list \<Rightarrow> real list list" where
  "weight_deltas nn delta prev =
     map (\<lambda>i. map (\<lambda>j. \<bar>clipGradient nn (delta ! j * prev ! i)\<bar>) [0..<length delta])
         [0..<length prev]"

definition bias_deltas :: "NeuralNetwork \<Rightarrow> real list \<Rightarrow> real list" where
  "bias_deltas nn delta = map (\<lambda>g. \<bar>clipGradient nn g\<bar>) delta"

definition update_layer ::
  "NeuralNetwork \<Rightarrow> real list \<Rightarrow> real list \<Rightarrow> Layer \<Rightarrow> error + Layer" where
  "update_layer nn delta prev layer =
     (case update_weights nn delta prev (weights layer) of
        Inl e \<Rightarrow> Inl e
      | Inr w' \<Rightarrow>
         (case update_biases nn delta (biases layer) of
            Inl e \<Rightarrow> Inl e
          | Inr b' \<Rightarrow>
             Inr (layer\<lparr>weights := w', biases := b',
                        weightDeltas := weight_deltas nn delta prev,
                        biasDeltas := bias_deltas nn delta\<rparr>)))"

text \<open>
  The loop \<open>for (l = layers.length - 2; l >= 0; l--)\<close> over the trunk, given the trunk
  layers from the last to the first. \<open>nextShared\<close> reads the weights after their update.
\<close>

fun backward_trunk :: "NeuralNetwork \<Rightarrow> Layer list \<Rightarrow> real list \<Rightarrow> error + Layer list" where
  "backward_trunk nn [] sharedDelta = Inr []"
| "backward_trunk nn (layer # below) sharedDelta =
     (let prevActivation = (case below of [] \<Rightarrow> inputActivation layer
                            | p # _ \<Rightarrow> outputActivation p)
      in if length sharedDelta < length (outputActivation layer) then Inl NonNumeric
         else
           (let delta = map (\<lambda>idx. sharedDelta ! idx
                                     * reluDerivative (outputActivation layer ! idx))
                            [0..<length (outputActivation layer)]
            in (case update_layer nn delta prevActivation layer of
                  Inl e \<Rightarrow> Inl e
                | Inr layer' \<Rightarrow>
                   (let nextShared =
                          map (\<lambda>i. foldl (\<lambda>acc j. acc + delta ! j * (weights layer' ! i ! j))
                                          0 [0..<length delta])
                              [0..<length prevActivation]
                    in (case backward_trunk nn below nextShared of
                          Inl e \<Rightarrow> Inl e
                        | Inr ls \<Rightarrow> Inr (layer' # ls))))))"

definition backward :: "NeuralNetwork \<Rightarrow> real list \<Rightarrow> real list \<Rightarrow> error + NeuralNetwork" where
  "backward nn policyDelta valueDelta =
     (if layers nn = [] then Inl TypeError
      else
        (let policyLayer = last (layers nn);
             prevHidden = lastHiddenActivation nn;
             policyWeightsSnapshot = weights policyLayer;
             valueWeightsSnapshot = weights (valueHead nn)
         in (case update_layer nn policyDelta prevHidden policyLayer of
               Inl e \<Rightarrow> Inl e
             | Inr policyLayer' \<Rightarrow>
                (case valueDelta of
                   [] \<Rightarrow> Inl NonNumeric
                 | v0 # _ \<Rightarrow>
                    (case update_layer nn [v0] prevHidden (valueHead nn) of
                       Inl e \<Rightarrow> Inl e
                     | Inr valueHead' \<Rightarrow>
                        (let sharedDelta =
                               map (\<lambda>i. foldl (\<lambda>acc j. acc + policyDelta ! j
                                                         * (policyWeightsSnapshot ! i ! j))
                                               0 [0..<length policyDelta]
                                         + v0 * (valueWeightsSnapshot ! i ! 0))
                                   [0..<length prevHidden]
                         in (case backward_trunk nn (rev (butlast (layers nn))) sharedDelta of
                               Inl e \<Rightarrow> Inl e
                             | Inr trunk' \<Rightarrow>
                                Inr (nn\<lparr>layers := rev trunk' @ [policyLayer'],
                                        valueHead := valueHead'\<rparr>))))))))"

record TrainingExample =
  ex_input :: "real list"
  ex_target :: "real list"
  ex_mask :: "real list"
  ex_weight :: real
  ex_value :: real

text \<open>The body of the loop of \<open>train\<close>, for the examples in order.\<close>

fun train_loop ::
  "NeuralNetwork \<Rightarrow> random_source \<Rightarrow> TrainingExample list \<Rightarrow> real \<Rightarrow> real \<Rightarrow>
   error + (real \<times> real \<times> NeuralNetwork \<times> random_source)" where
  "train_loop nn r [] totalLoss totalWeight = Inr (totalLoss, totalWeight, nn, r)"
| "train_loop nn r (example # rest) totalLoss totalWeight =
     (case forward nn r (ex_input example) (Some (ex_mask example)) of
        Inl e \<Rightarrow> Inl e
      | Inr (out, nn1, r1) \<Rightarrow>
         (let policy = out_policy out;
              value = out_value out;
              eps = 1 / 1000000000
          in if length policy \<noteq> length (ex_target example) then Inl NonNumeric
             else
               (let policyLoss =
                      - foldl (\<lambda>acc i. acc + ex_target example ! i * ln (max (policy ! i) eps))
                              0 [0..<length (ex_target example)];
                    valueError = value - ex_value example;
                    valueLoss = valueError * valueError;
                    sampleLoss = policyLoss + nn_valueLossWeight nn1 * valueLoss;
                    policyGrad = map (\<lambda>i. (policy ! i - ex_target example ! i)
                                            * ex_weight example)
                                     [0..<length policy];
                    dValue = 2 * valueError * nn_valueLossWeight nn1 * ex_weight example
                             * (1 - value * value)
                in (case backward nn1 policyGrad [dValue] of
                      Inl e \<Rightarrow> Inl e
                    | Inr nn2 \<Rightarrow>
                        train_loop nn2 r1 rest (totalLoss + sampleLoss * ex_weight example)
                                   (totalWeight + ex_weight example)))))"

definition train ::
  "NeuralNetwork \<Rightarrow> random_source \<Rightarrow> TrainingExample list \<Rightarrow>
   error + (real \<times> NeuralNetwork \<times> random_source)" where
  "train nn r examples =
     (case train_loop (setTraining True nn) r examples 0 0 of
        Inl e \<Rightarrow> Inl e
      | Inr (totalLoss, totalWeight, nn1, r1) \<Rightarrow>
         (let nn2 = setTraining False nn1;
              nn3 = nn2\<lparr>trainingCount := trainingCount nn2 + int (length examples)\<rparr>
          in Inr (if totalWeight > 0 then totalLoss / totalWeight else 0, nn3, r1)))"

subsection \<open>Snapshots\<close>

record NetworkSnapshot =
  snap_config :: NetworkConfig
  snap_weights :: "real list list list"
  snap_biases :: "real list list"
  valueHeadWeights :: "real list list option"
  valueHeadBiases :: "real list option"
  snap_trainingCount :: int

text \<open>
  \<open>getSnapshot\<close> first stores the current learning rate in the configuration. In the
  source the snapshot holds the network's own arrays; here it holds their values.
\<close>

definition getSnapshot :: "NeuralNetwork \<Rightarrow> NetworkSnapshot \<times> NeuralNetwork" where
  "getSnapshot nn =
     (let nn' = nn\<lparr>config := (config nn)\<lparr>learningRate := currentLearningRate nn\<rparr>\<rparr>
      in (\<lparr>snap_config = config nn',
           snap_weights = map weights (layers nn'),
           snap_biases = map biases (layers nn'),
           valueHeadWeights = Some (weights (valueHead nn')),
           valueHeadBiases = Some (biases (valueHead nn')),
           snap_trainingCount = trainingCount nn'\<rparr>, nn'))"

text \<open>
  \<open>JSON.parse(JSON.stringify(x))\<close> on arrays of finite numbers: a copy with the same
  values.
\<close>

definition json_copy :: "'a \<Rightarrow> 'a" where
  "json_copy x = x"

text \<open>
  The checks of \<open>loadSnapshot\<close> on layer \<open>i\<close>: the error thrown, if any. The expected
  shape is \<open>weights.length\<close> and \<open>weights[0].length\<close> of the network's layer (which
  throws on an empty matrix); the shape of the snapshot's matrix is read the same way,
  with \<open>weights[i][0]?.length\<close> undefined on an empty matrix.
\<close>

definition layer_check :: "nat \<Rightarrow> NetworkSnapshot \<Rightarrow> Layer \<Rightarrow> error option" where
  "layer_check i snapshot layer =
     (if \<not> i < length (snap_weights snapshot) \<or> \<not> i < length (snap_biases snapshot)
      then Some SnapshotLayerMissing
      else
        (case weights layer of
           [] \<Rightarrow> Some TypeError
         | row0 # _ \<Rightarrow>
            (let expectedIn = length (weights layer);
                 expectedOut = Some (length row0);
                 gotIn = length (snap_weights snapshot ! i);
                 gotOut = (case snap_weights snapshot ! i of [] \<Rightarrow> None
                           | g # _ \<Rightarrow> Some (length g))
             in if expectedIn \<noteq> gotIn \<or> expectedOut \<noteq> gotOut
                then Some (SnapshotShapeMismatch i)
                else None)))"

definition loaded :: "nat \<Rightarrow> NetworkSnapshot \<Rightarrow> Layer \<Rightarrow> Layer" where
  "loaded i snapshot layer =
     layer\<lparr>weights := json_copy (snap_weights snapshot ! i),
           biases := json_copy (snap_biases snapshot ! i)\<rparr>"

text \<open>
  The loop of \<open>loadSnapshot\<close> from layer \<open>i\<close> on: each layer is checked and then
  overwritten at once, before the next layer is checked. The result is the error
  thrown, if any, and the layers as the loop leaves them.
\<close>

fun load_layers :: "nat \<Rightarrow> NetworkSnapshot \<Rightarrow> Layer list \<Rightarrow> error option \<times> Layer list" where
  "load_layers i snapshot [] = (None, [])"
| "load_layers i snapshot (layer # rest) =
     (case layer_check i snapshot layer of
        Some e \<Rightarrow> (Some e, layer # rest)
      | None \<Rightarrow>
         (let (e, rest') = load_layers (i + 1) snapshot rest
          in (e, loaded i snapshot layer # rest')))"

definition loadSnapshot :: "NetworkSnapshot \<Rightarrow> NeuralNetwork \<Rightarrow> error option \<times> NeuralNetwork" where
  "loadSnapshot snapshot nn =
     (let nn1 = nn\<lparr>trainingCount := snap_trainingCount snapshot\<rparr>;
          (e, ls) = load_layers 0 snapshot (layers nn1);
          nn2 = nn1\<lparr>layers := ls\<rparr>
      in (case e of
            Some err \<Rightarrow> (Some err, nn2)
          | None \<Rightarrow>
             (let nn3 = (case (valueHeadWeights snapshot, valueHeadBiases snapshot) of
                           (Some w, Some b) \<Rightarrow>
                              nn2\<lparr>valueHead := (valueHead nn2)
                                     \<lparr>weights := json_copy w, biases := json_copy b\<rparr>\<rparr>
                         | _ \<Rightarrow> nn2)
              in (None, nn3\<lparr>currentLearningRate := learningRate (config nn3)\<rparr>))))"

text \<open>
  The shape that \<open>loadSnapshot\<close> compares: the number of rows of a weight matrix and
  the length of its first row.
\<close>

definition matrix_dims :: "real list list \<Rightarrow> nat \<times> nat option" where
  "matrix_dims w = (length w, case w of [] \<Rightarrow> None | row0 # _ \<Rightarrow> Some (length row0))"

definition setLearningRate :: "real \<Rightarrow> NeuralNetwork \<Rightarrow> NeuralNetwork" where
  "setLearningRate lr nn =
     nn\<lparr>currentLearningRate := lr, config := (config nn)\<lparr>learningRate := lr\<rparr>\<rparr>"

text \<open>
  The networks that a program obtains from \<open>new NeuralNetwork(cfg)\<close> by calls of
  \<open>train\<close>, \<open>forward\<close>, \<open>setLearningRate\<close> and \<open>getSnapshot\<close> that return.
\<close>

inductive trained :: "NetworkConfig \<Rightarrow> NeuralNetwork \<Rightarrow> bool" for cfg where
  constructed: "NeuralNetwork_new cfg r = Inr (nn, r') \<Longrightarrow> trained cfg nn"
| after_train: "trained cfg nn \<Longrightarrow> train nn r examples = Inr (loss, nn', r') \<Longrightarrow> trained cfg nn'"
| after_forward: "trained cfg nn \<Longrightarrow> forward nn r input msk = Inr (out, nn', r')
                  \<Longrightarrow> trained cfg nn'"
| after_setLearningRate: "trained cfg nn \<Longrightarrow> trained cfg (setLearningRate lr nn)"
| after_getSnapshot: "trained cfg nn \<Longrightarrow> trained cfg (snd (getSnapshot nn))"

text \<open>The length of every row of every weight matrix of the trunk and the policy head.\<close>

definition row_lengths :: "NeuralNetwork \<Rightarrow> nat list list" where
  "row_lengths nn = map (\<lambda>l. map length (weights l)) (layers nn)"

text \<open>
  One update step between two weight matrices \<open>w\<close> and \<open>w'\<close> of the same shape: every
  weight is left as it was, or is its decayed old value minus the gradient term of some
  gradient \<open>g\<close>.
\<close>

definition stepped :: "NeuralNetwork \<Rightarrow> real list list \<Rightarrow> real list list \<Rightarrow> bool" where
  "stepped nn w w' \<longleftrightarrow>
     length w' = length w
     \<and> (\<forall>i<length w. length (w' ! i) = length (w ! i)
           \<and> (\<forall>j<length (w ! i).
                 w' ! i ! j = w ! i ! j
                 \<or> (\<exists>g. w' ! i ! j = decayed nn (w ! i ! j) - gradient_term nn g)))"

text \<open>The local \<open>policyLogits\<close> of \<open>forward\<close>: the policy head's outputs before \<open>softmax\<close>.\<close>

definition policy_logits :: "NeuralNetwork \<Rightarrow> random_source \<Rightarrow> real list \<Rightarrow> error + real list" where
  "policy_logits nn r input =
     (case forward_trunk nn (butlast (layers nn)) input r of
        Inl e \<Rightarrow> Inl e
      | Inr (trunk, masks, activation, r') \<Rightarrow> layer_outputs (last (layers nn)) activation)"

subsection \<open>The range of the doubles\<close>

text \<open>
  A bound for every number that one output unit computes: the absolute value of its
  bias plus those of its products bounds each product and each partial sum of the loop.
\<close>

definition unit_magnitude :: "Layer \<Rightarrow> real list \<Rightarrow> nat \<Rightarrow> real" where
  "unit_magnitude layer activation j =
     \<bar>biases layer ! j\<bar>
     + sum_list (map (\<lambda>i. \<bar>activation ! i * (weights layer ! i ! j)\<bar>) [0..<length activation])"



section \<open>The game (gameLogic.ts)\<close>

text \<open>The type \<open>'X' | 'O'\<close>.\<close>

datatype PlayerSymbol = SymX | SymO

definition symbol_char :: "PlayerSymbol \<Rightarrow> char" where
  "symbol_char s = (case s of SymX \<Rightarrow> CHR ''X'' | SymO \<Rightarrow> CHR ''O'')"

text \<open>\<open>board[i]\<close>: the character at \<open>i\<close>, or \<open>undefined\<close> (here \<open>None\<close>) past the end.\<close>

definition char_at :: "string \<Rightarrow> nat \<Rightarrow> char option" where
  "char_at board i = (if i < length board then Some (board ! i) else None)"

definition WINNING_LINES :: "(nat \<times> nat \<times> nat) list" where
  "WINNING_LINES =
     [(0, 1, 2), (3, 4, 5), (6, 7, 8),
      (0, 3, 6), (1, 4, 7), (2, 5, 8),
      (0, 4, 8), (2, 4, 6)]"

text \<open>
  \<open>computeWinner\<close> returns \<open>board[a]\<close> of the first line that matches; \<open>None\<close> is \<open>null\<close>,
  and also the \<open>undefined\<close> that a line past the end of a short board returns. Every
  caller only tests the result for truth.
\<close>

definition line_matches :: "string \<Rightarrow> nat \<times> nat \<times> nat \<Rightarrow> bool" where
  "line_matches board l =
     (case l of (a, b, c) \<Rightarrow>
        char_at board a \<noteq> Some CHR ''_''
        \<and> char_at board a = char_at board b
        \<and> char_at board b = char_at board c)"

definition computeWinner :: "string \<Rightarrow> char option" where
  "computeWinner board =
     (case find (line_matches board) WINNING_LINES of
        None \<Rightarrow> None
      | Some (a, b, c) \<Rightarrow> char_at board a)"

definition isMoveValid :: "string \<Rightarrow> nat \<Rightarrow> bool" where
  "isMoveValid board index = (char_at board index = Some CHR ''_'')"

definition nextSymbol :: "PlayerSymbol \<Rightarrow> PlayerSymbol" where
  "nextSymbol s = (if s = SymX then SymO else SymX)"

section \<open>The oracle (minimaxTeacher.ts)\<close>

text \<open>
  The scores are JavaScript numbers: integers, and the infinities that \<open>best\<close> starts
  from and that negating it gives.
\<close>

datatype score = NegInf | Num int | PosInf

fun negate :: "score \<Rightarrow> score" where
  "negate NegInf = PosInf"
| "negate (Num n) = Num (- n)"
| "negate PosInf = NegInf"

text \<open>\<open>a > b\<close>\<close>

fun score_gt :: "score \<Rightarrow> score \<Rightarrow> bool" where
  "score_gt NegInf b = False"
| "score_gt (Num m) NegInf = True"
| "score_gt (Num m) (Num n) = (n < m)"
| "score_gt (Num m) PosInf = False"
| "score_gt PosInf b = (b \<noteq> PosInf)"

text \<open>\<open>Math.max(-1, Math.min(1, s / d))\<close>\<close>

fun bounded_ratio :: "score \<Rightarrow> int \<Rightarrow> real" where
  "bounded_ratio NegInf d = - 1"
| "bounded_ratio (Num n) d = max (- 1) (min 1 (real_of_int n / real_of_int d))"
| "bounded_ratio PosInf d = 1"

definition SCORE_WIN :: int where
  "SCORE_WIN = 10"

definition applyMove :: "string \<Rightarrow> nat \<Rightarrow> PlayerSymbol \<Rightarrow> string" where
  "applyMove board index symbol = take index board @ [symbol_char symbol] @ drop (index + 1) board"

definition boardMask :: "string \<Rightarrow> real list" where
  "boardMask board = map (\<lambda>c. if c = CHR ''_'' then 1 else 0) board"

definition terminalScore :: "string \<Rightarrow> int \<Rightarrow> score option" where
  "terminalScore board depth =
     (if computeWinner board \<noteq> None then Some (Num (- (SCORE_WIN - depth)))
      else if CHR ''_'' \<notin> set board then Some (Num 0)
      else None)"

text \<open>The cache key \<open>`${board}|${turn}`\<close>.\<close>

definition cache_key :: "string \<Rightarrow> PlayerSymbol \<Rightarrow> string" where
  "cache_key board turn = board @ ''|'' @ [symbol_char turn]"

type_synonym negamax_cache = "string \<rightharpoonup> score"

text \<open>The cells that a move can still fill: the measure of the recursion.\<close>

definition empties :: "string \<Rightarrow> nat" where
  "empties board = length (filter (\<lambda>c. c = CHR ''_'') board)"

text \<open>
  \<open>negamax\<close>, with the module's cache passed in and returned. The loop over the nine
  cells is a fold whose state is the local \<open>best\<close> and the cache.
\<close>

function negamax :: "negamax_cache \<Rightarrow> string \<Rightarrow> PlayerSymbol \<Rightarrow> int \<Rightarrow> score \<times> negamax_cache" where
  "negamax cache board playerToMove depth =
     (case cache (cache_key board playerToMove) of
        Some cached \<Rightarrow> (cached, cache)
      | None \<Rightarrow>
         (case terminalScore board depth of
            Some terminal \<Rightarrow> (terminal, cache(cache_key board playerToMove \<mapsto> terminal))
          | None \<Rightarrow>
             (case foldl (\<lambda>(best, c) i.
                            if \<not> isMoveValid board i then (best, c)
                            else
                              (case negamax c (applyMove board i playerToMove)
                                            (nextSymbol playerToMove) (depth + 1) of
                                 (s, c') \<Rightarrow>
                                   (if score_gt (negate s) best then negate s else best, c')))
                         (NegInf, cache) [0..<9] of
                (best, c) \<Rightarrow> (best, c(cache_key board playerToMove \<mapsto> best)))))"
  by pat_completeness auto
termination
proof (relation "measure (\<lambda>(cache, board, playerToMove, depth). empties board)")
  show "wf (measure (\<lambda>(cache, board, playerToMove, depth). empties board))" by simp
next
  fix cache :: negamax_cache and board playerToMove and depth :: int and x xa :: "score \<times> negamax_cache"
    and y :: nat and xb :: score and ya :: negamax_cache
  assume v: "\<not> \<not> isMoveValid board y"
  then have y: "y < length board" "board ! y = CHR ''_''"
    by (auto simp: isMoveValid_def char_at_def split: if_splits)
  then have "board = take y board @ CHR ''_'' # drop (Suc y) board"
    by (metis id_take_nth_drop)
  then have "empties board = empties (take y board @ CHR ''_'' # drop (Suc y) board)"
    by (rule arg_cong)
  moreover have "empties (applyMove board y playerToMove)
                 < empties (take y board @ CHR ''_'' # drop (Suc y) board)"
    by (simp add: applyMove_def empties_def symbol_char_def split: PlayerSymbol.splits)
  ultimately have "empties (applyMove board y playerToMove) < empties board"
    by simp
  then show "((ya, applyMove board y playerToMove, nextSymbol playerToMove, depth + 1),
              cache, board, playerToMove, depth)
             \<in> measure (\<lambda>(cache, board, playerToMove, depth). empties board)"
    by simp
qed

text \<open>The module state: the two caches.\<close>

record Caches =
  negamaxCache :: negamax_cache
  policyCache :: "string \<rightharpoonup> real list \<times> real"

definition initial_caches :: Caches where
  "initial_caches = \<lparr>negamaxCache = Map.empty, policyCache = Map.empty\<rparr>"

record PolicyResult =
  mp_policy :: "real list"
  mp_mask :: "real list"
  mp_value :: real

text \<open>\<open>mask[i] === v\<close>, false past the end of the mask.\<close>

definition mask_is :: "real list \<Rightarrow> nat \<Rightarrow> real \<Rightarrow> bool" where
  "mask_is msk i v = (i < length msk \<and> msk ! i = v)"

text \<open>
  The first loop of \<open>minimaxPolicy\<close>: the state of the fold is \<open>bestScore\<close>, \<open>scores\<close> and
  the cache of \<open>negamax\<close>.
\<close>

definition score_moves ::
  "negamax_cache \<Rightarrow> string \<Rightarrow> PlayerSymbol \<Rightarrow> real list \<Rightarrow> score \<times> score list \<times> negamax_cache" where
  "score_moves cache board turn msk =
     foldl (\<lambda>(bestScore, scores, c) i.
              if mask_is msk i 0 then (bestScore, scores, c)
              else
                (case negamax c (applyMove board i turn) (nextSymbol turn) 1 of
                   (s, c') \<Rightarrow>
                     (if score_gt (negate s) bestScore then negate s else bestScore,
                      scores[i := negate s], c')))
           (NegInf, replicate 9 NegInf, cache) [0..<9]"

definition minimaxPolicy :: "Caches \<Rightarrow> string \<Rightarrow> PlayerSymbol \<Rightarrow> PolicyResult \<times> Caches" where
  "minimaxPolicy st board turn =
     (case policyCache st (cache_key board turn) of
        Some (policy, v) \<Rightarrow>
          (\<lparr>mp_policy = policy, mp_mask = boardMask board, mp_value = v\<rparr>, st)
      | None \<Rightarrow>
         (let msk = boardMask board;
              winner = computeWinner board
          in if winner \<noteq> None \<or> CHR ''_'' \<notin> set board
             then
               (let zeros = replicate 9 0
                in (\<lparr>mp_policy = zeros, mp_mask = msk, mp_value = 0\<rparr>,
                    st\<lparr>policyCache := (policyCache st)(cache_key board turn \<mapsto> (zeros, 0))\<rparr>))
             else
               (case score_moves (negamaxCache st) board turn msk of
                  (bestScore, scores, cache') \<Rightarrow>
                    (let bestMoves = filter (\<lambda>i. mask_is msk i 1 \<and> scores ! i = bestScore)
                                            [0..<9];
                         p = (if length bestMoves > 0 then 1 / real (length bestMoves) else 0);
                         policy = foldl (\<lambda>pol m. pol[m := p]) (replicate 9 0) bestMoves;
                         boundedValue = bounded_ratio bestScore SCORE_WIN
                     in (\<lparr>mp_policy = policy, mp_mask = msk, mp_value = boundedValue\<rparr>,
                         \<lparr>negamaxCache = cache',
                          policyCache = (policyCache st)
                            (cache_key board turn \<mapsto> (policy, boundedValue))\<rparr>)))))"

section \<open>The dataset builder (minimaxTeacher.ts)\<close>

record TeacherState =
  ts_board :: string
  ts_turn :: PlayerSymbol
  ts_policy :: "real list"
  ts_mask :: "real list"
  ts_value :: real

definition TRANSFORMS :: "(string \<times> nat list) list" where
  "TRANSFORMS =
     [(''id'', [0, 1, 2, 3, 4, 5, 6, 7, 8]),
      (''rot90'', [2, 5, 8, 1, 4, 7, 0, 3, 6]),
      (''rot180'', [8, 7, 6, 5, 4, 3, 2, 1, 0]),
      (''rot270'', [6, 3, 0, 7, 4, 1, 8, 5, 2]),
      (''flipTB'', [6, 7, 8, 3, 4, 5, 0, 1, 2]),
      (''flipLR'', [2, 1, 0, 5, 4, 3, 8, 7, 6]),
      (''diag'', [0, 3, 6, 1, 4, 7, 2, 5, 8]),
      (''anti'', [8, 5, 2, 7, 4, 1, 6, 3, 0])]"

text \<open>
  \<open>transformBoard\<close>: an array of nine one-character strings, joined; a cell read past
  the end of the board is \<open>undefined\<close> and joins as the empty string.
\<close>

definition transformBoard :: "string \<Rightarrow> nat list \<Rightarrow> string" where
  "transformBoard board mp =
     concat (foldl (\<lambda>out i. out[mp ! i := (case char_at board i of None \<Rightarrow> [] | Some c \<Rightarrow> [c])])
                   (replicate 9 ''_'') [0..<9])"

text \<open>\<open>transformDist\<close>: \<open>out[map[i]] += dist[i] ?? 0\<close>.\<close>

definition transformDist :: "real list \<Rightarrow> nat list \<Rightarrow> real list" where
  "transformDist ds mp =
     foldl (\<lambda>out i. out[mp ! i := out ! (mp ! i) + (if i < length ds then ds ! i else 0)])
           (replicate 9 0) [0..<9]"

text \<open>
  The local function \<open>walk\<close> of \<open>generateTeacherDataset\<close>, with the set \<open>seen\<close> and the
  array \<open>states\<close> it closes over passed in and returned.
\<close>

function walk ::
  "string set \<times> (string \<times> PlayerSymbol) list \<Rightarrow> string \<Rightarrow> PlayerSymbol \<Rightarrow>
   string set \<times> (string \<times> PlayerSymbol) list" where
  "walk acc board turn =
     (case acc of (seen, states) \<Rightarrow>
        if cache_key board turn \<in> seen then (seen, states)
        else if computeWinner board \<noteq> None \<or> CHR ''_'' \<notin> set board
        then (insert (cache_key board turn) seen, states)
        else foldl (\<lambda>acc' i. if \<not> isMoveValid board i then acc'
                              else walk acc' (applyMove board i turn) (nextSymbol turn))
                   (insert (cache_key board turn) seen, states @ [(board, turn)])
                   [0..<9])"
  by pat_completeness auto
termination
proof (relation "measure (\<lambda>(acc, board, turn). empties board)")
  show "wf (measure (\<lambda>(acc, board, turn). empties board))" by simp
next
  fix acc :: "string set \<times> (string \<times> PlayerSymbol) list" and board turn
    and x1 :: "string set" and x2 :: "(string \<times> PlayerSymbol) list"
    and x :: "string set \<times> (string \<times> PlayerSymbol) list" and y :: nat
  assume "\<not> \<not> isMoveValid board y"
  then have y: "y < length board" "board ! y = CHR ''_''"
    by (auto simp: isMoveValid_def char_at_def split: if_splits)
  then have "board = take y board @ CHR ''_'' # drop (Suc y) board"
    by (metis id_take_nth_drop)
  then have "empties board = empties (take y board @ CHR ''_'' # drop (Suc y) board)"
    by (rule arg_cong)
  moreover have "empties (applyMove board y turn)
                 < empties (take y board @ CHR ''_'' # drop (Suc y) board)"
    by (simp add: applyMove_def empties_def symbol_char_def split: PlayerSymbol.splits)
  ultimately have "empties (applyMove board y turn) < empties board"
    by simp
  then show "((x, applyMove board y turn, nextSymbol turn), acc, board, turn)
             \<in> measure (\<lambda>(acc, board, turn). empties board)"
    by simp
qed

record Options =
  augmentSymmetries :: "bool option"

text \<open>
  The body of the loop over \<open>states\<close>: the state is the array \<open>out\<close>, the set \<open>dedupe\<close>
  and the oracle's caches.
\<close>

definition emit_state ::
  "bool \<Rightarrow> TeacherState list \<times> string set \<times> Caches \<Rightarrow> string \<times> PlayerSymbol \<Rightarrow>
   TeacherState list \<times> string set \<times> Caches" where
  "emit_state augment acc s =
     (case acc of (out, dedupe, st) \<Rightarrow>
      (case s of (board, turn) \<Rightarrow>
       (case minimaxPolicy st board turn of (res, st') \<Rightarrow>
          if \<not> augment
          then
            (if cache_key board turn \<notin> dedupe
             then (out @ [\<lparr>ts_board = board, ts_turn = turn, ts_policy = mp_policy res,
                           ts_mask = mp_mask res, ts_value = mp_value res\<rparr>],
                   insert (cache_key board turn) dedupe, st')
             else (out, dedupe, st'))
          else
            (case foldl (\<lambda>(out', dedupe') t.
                           (let b2 = transformBoard board (snd t);
                                p2 = transformDist (mp_policy res) (snd t);
                                m2 = boardMask b2;
                                k = cache_key b2 turn
                            in if k \<in> dedupe' then (out', dedupe')
                               else (out' @ [\<lparr>ts_board = b2, ts_turn = turn, ts_policy = p2,
                                               ts_mask = m2, ts_value = mp_value res\<rparr>],
                                     insert k dedupe')))
                        (out, dedupe) TRANSFORMS of
               (out', dedupe') \<Rightarrow> (out', dedupe', st')))))"

definition generateTeacherDataset :: "Options option \<Rightarrow> Caches \<Rightarrow> TeacherState list \<times> Caches" where
  "generateTeacherDataset options st =
     (let augment = (case options of None \<Rightarrow> True
                     | Some opts \<Rightarrow> (case augmentSymmetries opts of None \<Rightarrow> True | Some a \<Rightarrow> a));
          (seen, states) = walk ({}, []) ''_________'' SymX;
          (out, dedupe, st') = foldl (emit_state augment) ([], {}, st) states
      in (out, st'))"

text \<open>
  The states of the caches that a program can reach: the empty caches of a freshly
  loaded module, and the state after any call of \<open>minimaxPolicy\<close> (the only function that
  writes them; \<open>generateTeacherDataset\<close> writes them through it).
\<close>

inductive reachable :: "Caches \<Rightarrow> bool" where
  fresh: "reachable initial_caches"
| call: "reachable st \<Longrightarrow> reachable (snd (minimaxPolicy st board turn))"

text \<open>\<open>later st st'\<close>: the state \<open>st'\<close> follows \<open>st\<close> after any number of calls.\<close>

inductive later :: "Caches \<Rightarrow> Caches \<Rightarrow> bool" for st where
  now: "later st st"
| then_call: "later st st' \<Longrightarrow> later st (snd (minimaxPolicy st' board turn))"

section \<open>The game-theoretic outcome\<close>

text \<open>
  The outcome of a position for the side to move, by the rules that the oracle searches
  with: a position with a completed line is lost for the side to move, a full board is a
  draw, and a move is a cell among the first nine that is empty. \<open>can_draw\<close>: the side to
  move can get at least a draw; \<open>cannot_win\<close>: it can get at most a draw.
\<close>

function can_draw :: "string \<Rightarrow> PlayerSymbol \<Rightarrow> bool"
  and cannot_win :: "string \<Rightarrow> PlayerSymbol \<Rightarrow> bool" where
  "can_draw board turn =
     (if computeWinner board \<noteq> None then False
      else if CHR ''_'' \<notin> set board then True
      else list_ex (\<lambda>i. if isMoveValid board i
                         then cannot_win (applyMove board i turn) (nextSymbol turn)
                         else False) [0..<9])"
| "cannot_win board turn =
     (if computeWinner board \<noteq> None then True
      else if CHR ''_'' \<notin> set board then True
      else list_all (\<lambda>i. if isMoveValid board i
                          then can_draw (applyMove board i turn) (nextSymbol turn)
                          else True) [0..<9])"
  by pat_completeness auto
termination
proof (relation "measure (\<lambda>a. case a of Inl (board, turn) \<Rightarrow> empties board
                                  | Inr (board, turn) \<Rightarrow> empties board)")
  show "wf (measure (\<lambda>a. case a of Inl (board, turn) \<Rightarrow> empties board
                                  | Inr (board, turn) \<Rightarrow> empties board))" by simp
next
  fix board turn and y :: nat
  assume "isMoveValid board y"
  then have y: "y < length board" "board ! y = CHR ''_''"
    by (auto simp: isMoveValid_def char_at_def split: if_splits)
  then have "board = take y board @ CHR ''_'' # drop (Suc y) board"
    by (metis id_take_nth_drop)
  then have "empties board = empties (take y board @ CHR ''_'' # drop (Suc y) board)"
    by (rule arg_cong)
  moreover have "empties (applyMove board y turn)
                 < empties (take y board @ CHR ''_'' # drop (Suc y) board)"
    by (simp add: applyMove_def empties_def symbol_char_def split: PlayerSymbol.splits)
  ultimately have e: "empties (applyMove board y turn) < empties board"
    by simp
  show "(Inr (applyMove board y turn, nextSymbol turn), Inl (board, turn))
             \<in> measure (\<lambda>a. case a of Inl (board, turn) \<Rightarrow> empties board
                                  | Inr (board, turn) \<Rightarrow> empties board)"
    using e by simp
  show "(Inl (applyMove board y turn, nextSymbol turn), Inr (board, turn))
             \<in> measure (\<lambda>a. case a of Inl (board, turn) \<Rightarrow> empties board
                                  | Inr (board, turn) \<Rightarrow> empties board)"
    using e by simp
qed

text \<open>The sign of a score, and the scores that have the sign of the outcome.\<close>

fun nonneg :: "score \<Rightarrow> bool" where
  "nonneg NegInf = False"
| "nonneg (Num n) = (0 \<le> n)"
| "nonneg PosInf = True"

fun nonpos :: "score \<Rightarrow> bool" where
  "nonpos NegInf = True"
| "nonpos (Num n) = (n \<le> 0)"
| "nonpos PosInf = False"

definition sign_ok :: "string \<Rightarrow> PlayerSymbol \<Rightarrow> score \<Rightarrow> bool" where
  "sign_ok board turn v \<longleftrightarrow>
     (nonneg v \<longleftrightarrow> can_draw board turn) \<and> (nonpos v \<longleftrightarrow> cannot_win board turn)"

definition cache_sound :: "negamax_cache \<Rightarrow> bool" where
  "cache_sound cache \<longleftrightarrow>
     (\<forall>board turn v. cache (cache_key board turn) = Some v \<longrightarrow> sign_ok board turn v)"

text \<open>The cells among the first nine that no move can fill any more.\<close>

definition filled :: "string \<Rightarrow> int" where
  "filled board = int (length (filter (\<lambda>i. \<not> isMoveValid board i) [0..<9]))"

text \<open>
  The policies in the cache for the boards of nine cells that are not over are
  distributions over the legal moves.
\<close>

definition policy_cache_ok :: "Caches \<Rightarrow> bool" where
  "policy_cache_ok st \<longleftrightarrow>
     (\<forall>board turn policy v.
        policyCache st (cache_key board turn) = Some (policy, v) \<longrightarrow>
        length board = 9 \<longrightarrow> computeWinner board = None \<longrightarrow> CHR ''_'' \<in> set board \<longrightarrow>
        legal_distribution policy (boardMask board))"

text \<open>The states that the dataset builder labels: boards of nine cells that are not over.\<close>

definition open_state :: "string \<times> PlayerSymbol \<Rightarrow> bool" where
  "open_state s \<longleftrightarrow>
     length (fst s) = 9 \<and> computeWinner (fst s) = None \<and> CHR ''_'' \<in> set (fst s)"

text \<open>
  The scores that \<open>negamax\<close> gives at depth \<open>d\<close> when every score in its cache was computed
  at the depth of its board below one root; \<open>k\<close> is the number of filled cells of the
  root.
\<close>

definition bound_ok :: "int \<Rightarrow> string \<Rightarrow> score \<Rightarrow> bool" where
  "bound_ok d board v \<longleftrightarrow>
     (\<exists>n. v = Num n
        \<and> (if computeWinner board \<noteq> None then n = - (SCORE_WIN - d)
           else - (SCORE_WIN - 1 - d) \<le> n \<and> n \<le> SCORE_WIN - 1 - d))"

definition cache_bounded :: "int \<Rightarrow> negamax_cache \<Rightarrow> bool" where
  "cache_bounded k cache \<longleftrightarrow>
     (\<forall>board turn v. cache (cache_key board turn) = Some v \<longrightarrow>
        length board = 9 \<and> bound_ok (filled board - k) board v)"

section \<open>Strategies\<close>

text \<open>
  A strategy for the side to move: the cell it plays, and its answer to each move of the
  other side, in the order of the cells. \<open>secures_draw board turn s\<close> checks that \<open>s\<close> is
  played on legal cells and never reaches a board where the other side has completed a
  line; \<open>answers_all board turn replies\<close> checks the answers of the other side to every
  move of the side to move.
\<close>

datatype strategy = Reply nat "strategy list"

fun secures_draw :: "string \<Rightarrow> PlayerSymbol \<Rightarrow> strategy \<Rightarrow> bool"
  and answers_all :: "string \<Rightarrow> PlayerSymbol \<Rightarrow> strategy list \<Rightarrow> bool"
  and answers_each :: "string \<Rightarrow> PlayerSymbol \<Rightarrow> strategy list \<Rightarrow> nat list \<Rightarrow> bool" where
  "secures_draw board turn (Reply i replies) =
     (if computeWinner board \<noteq> None then False
      else if CHR ''_'' \<notin> set board then True
      else if i < 9 \<and> isMoveValid board i
      then answers_all (applyMove board i turn) (nextSymbol turn) replies
      else False)"
| "answers_all board turn replies =
     (if computeWinner board \<noteq> None then True
      else if CHR ''_'' \<notin> set board then True
      else answers_each board turn replies [0, 1, 2, 3, 4, 5, 6, 7, 8])"
| "answers_each board turn replies [] = True"
| "answers_each board turn replies (j # js) =
     (if \<not> isMoveValid board j then answers_each board turn replies js
      else (case replies of
              [] \<Rightarrow> False
            | r # rs \<Rightarrow>
                if secures_draw (applyMove board j turn) (nextSymbol turn) r
                then answers_each board turn rs js
                else False))"

text \<open>The answers of the second player to each of the nine openings.\<close>

definition second_player_draws :: "strategy list" where
  "second_player_draws =
     [Reply 4 [Reply 2 [Reply 6 [], Reply 6 [], Reply 3 [Reply 7 [Reply 0 []], Reply 5 [],
     Reply 5 []], Reply 6 [], Reply 6 []], Reply 1 [Reply 7 [], Reply 7 [], Reply 7 [],
     Reply 3 [Reply 8 [Reply 0 []], Reply 5 [], Reply 5 []], Reply 7 []], Reply 6 [Reply 2
     [], Reply 1 [Reply 7 [], Reply 5 [Reply 0 []], Reply 7 []], Reply 2 [], Reply 2 [],
     Reply 2 []], Reply 1 [Reply 7 [], Reply 7 [], Reply 7 [], Reply 6 [Reply 8 [Reply 0
     []], Reply 2 [], Reply 2 []], Reply 7 []], Reply 3 [Reply 5 [], Reply 5 [], Reply 1
     [Reply 7 [], Reply 8 [Reply 0 []], Reply 7 []], Reply 5 [], Reply 5 []], Reply 3
     [Reply 5 [], Reply 5 [], Reply 2 [Reply 6 [], Reply 8 [Reply 0 []], Reply 6 []], Reply
     5 [], Reply 5 []], Reply 1 [Reply 7 [], Reply 7 [], Reply 7 [], Reply 7 [], Reply 6
     [Reply 5 [Reply 0 []], Reply 2 [], Reply 2 []]]], Reply 4 [Reply 2 [Reply 6 [], Reply
     6 [], Reply 3 [Reply 7 [Reply 0 []], Reply 5 [], Reply 5 []], Reply 6 [], Reply 6 []],
     Reply 0 [Reply 8 [], Reply 8 [], Reply 8 [], Reply 8 [], Reply 5 [Reply 6 [Reply 0
     []], Reply 3 [], Reply 3 []]], Reply 0 [Reply 8 [], Reply 8 [], Reply 8 [], Reply 8
     [], Reply 2 [Reply 6 [], Reply 7 [Reply 0 []], Reply 6 []]], Reply 0 [Reply 8 [],
     Reply 8 [], Reply 8 [], Reply 8 [], Reply 2 [Reply 6 [], Reply 7 [Reply 0 []], Reply 6
     []]], Reply 3 [Reply 5 [], Reply 5 [], Reply 8 [Reply 2 [Reply 0 []], Reply 0 [],
     Reply 0 []], Reply 5 [], Reply 5 []], Reply 0 [Reply 8 [], Reply 8 [], Reply 8 [],
     Reply 8 [], Reply 6 [Reply 3 [], Reply 2 [], Reply 2 []]], Reply 3 [Reply 5 [], Reply
     5 [], Reply 2 [Reply 6 [], Reply 7 [Reply 0 []], Reply 6 []], Reply 5 [], Reply 5
     []]], Reply 4 [Reply 1 [Reply 7 [], Reply 7 [], Reply 7 [], Reply 3 [Reply 8 [Reply 0
     []], Reply 5 [], Reply 5 []], Reply 7 []], Reply 0 [Reply 8 [], Reply 8 [], Reply 8
     [], Reply 8 [], Reply 5 [Reply 6 [Reply 0 []], Reply 3 [], Reply 3 []]], Reply 1
     [Reply 7 [], Reply 7 [], Reply 7 [], Reply 8 [Reply 6 [Reply 0 []], Reply 0 [], Reply
     0 []], Reply 7 []], Reply 8 [Reply 1 [Reply 7 [], Reply 7 [], Reply 3 [Reply 0 []]],
     Reply 0 [], Reply 0 [], Reply 0 [], Reply 0 []], Reply 1 [Reply 7 [], Reply 7 [],
     Reply 7 [], Reply 8 [Reply 3 [Reply 0 []], Reply 0 [], Reply 0 []], Reply 7 []], Reply
     3 [Reply 5 [], Reply 5 [], Reply 8 [Reply 1 [Reply 0 []], Reply 0 [], Reply 0 []],
     Reply 5 [], Reply 5 []], Reply 5 [Reply 3 [], Reply 3 [], Reply 1 [Reply 7 [], Reply 7
     [], Reply 6 [Reply 0 []]], Reply 3 [], Reply 3 []]], Reply 4 [Reply 6 [Reply 2 [],
     Reply 1 [Reply 7 [], Reply 5 [Reply 0 []], Reply 7 []], Reply 2 [], Reply 2 [], Reply
     2 []], Reply 0 [Reply 8 [], Reply 8 [], Reply 8 [], Reply 8 [], Reply 2 [Reply 6 [],
     Reply 7 [Reply 0 []], Reply 6 []]], Reply 1 [Reply 7 [], Reply 7 [], Reply 7 [], Reply
     8 [Reply 6 [Reply 0 []], Reply 0 [], Reply 0 []], Reply 7 []], Reply 0 [Reply 8 [],
     Reply 8 [], Reply 8 [], Reply 8 [], Reply 2 [Reply 6 [], Reply 1 [], Reply 1 []]],
     Reply 0 [Reply 8 [], Reply 8 [], Reply 8 [], Reply 8 [], Reply 7 [Reply 2 [Reply 0
     []], Reply 1 [], Reply 1 []]], Reply 0 [Reply 8 [], Reply 8 [], Reply 8 [], Reply 8
     [], Reply 6 [Reply 2 [], Reply 5 [Reply 0 []], Reply 2 []]], Reply 1 [Reply 7 [],
     Reply 7 [], Reply 7 [], Reply 7 [], Reply 6 [Reply 2 [], Reply 5 [Reply 0 []], Reply 2
     []]]], Reply 0 [Reply 7 [Reply 6 [Reply 8 [], Reply 3 [], Reply 3 []], Reply 5 [Reply
     6 [Reply 0 []], Reply 2 [Reply 0 []], Reply 2 [Reply 0 []]], Reply 3 [Reply 6 [],
     Reply 2 [Reply 0 []], Reply 6 []], Reply 2 [Reply 5 [Reply 0 []], Reply 3 [Reply 0
     []], Reply 3 [Reply 0 []]], Reply 3 [Reply 6 [], Reply 6 [], Reply 2 [Reply 0 []]]],
     Reply 6 [Reply 3 [], Reply 5 [Reply 7 [Reply 0 []], Reply 1 [Reply 0 []], Reply 1
     [Reply 0 []]], Reply 3 [], Reply 3 [], Reply 3 []], Reply 5 [Reply 7 [Reply 6 [Reply 0
     []], Reply 2 [Reply 0 []], Reply 2 [Reply 0 []]], Reply 6 [Reply 7 [Reply 0 []], Reply
     1 [Reply 0 []], Reply 1 [Reply 0 []]], Reply 2 [Reply 8 [], Reply 1 [], Reply 1 []],
     Reply 1 [Reply 6 [Reply 0 []], Reply 2 [], Reply 2 []], Reply 1 [Reply 6 [Reply 0 []],
     Reply 2 [], Reply 2 []]], Reply 3 [Reply 6 [], Reply 6 [], Reply 2 [Reply 7 [Reply 0
     []], Reply 1 [], Reply 1 []], Reply 6 [], Reply 6 []], Reply 2 [Reply 7 [Reply 5
     [Reply 0 []], Reply 3 [Reply 0 []], Reply 3 [Reply 0 []]], Reply 1 [], Reply 1 [],
     Reply 1 [], Reply 1 []], Reply 1 [Reply 6 [Reply 5 [Reply 0 []], Reply 3 [], Reply 3
     []], Reply 2 [], Reply 2 [], Reply 2 [], Reply 2 []], Reply 2 [Reply 7 [Reply 5 [Reply
     0 []], Reply 3 [Reply 0 []], Reply 3 [Reply 0 []]], Reply 1 [], Reply 1 [], Reply 1
     [], Reply 1 []]], Reply 4 [Reply 1 [Reply 7 [], Reply 7 [], Reply 7 [], Reply 6 [Reply
     8 [Reply 0 []], Reply 2 [], Reply 2 []], Reply 7 []], Reply 0 [Reply 8 [], Reply 8 [],
     Reply 8 [], Reply 8 [], Reply 2 [Reply 6 [], Reply 7 [Reply 0 []], Reply 6 []]], Reply
     8 [Reply 1 [Reply 7 [], Reply 7 [], Reply 3 [Reply 0 []]], Reply 0 [], Reply 0 [],
     Reply 0 [], Reply 0 []], Reply 0 [Reply 8 [], Reply 8 [], Reply 8 [], Reply 8 [],
     Reply 2 [Reply 6 [], Reply 1 [], Reply 1 []]], Reply 1 [Reply 7 [], Reply 7 [], Reply
     7 [], Reply 8 [Reply 3 [Reply 0 []], Reply 0 [], Reply 0 []], Reply 7 []], Reply 2
     [Reply 6 [], Reply 6 [], Reply 6 [], Reply 8 [Reply 3 [Reply 0 []], Reply 0 [], Reply
     0 []], Reply 6 []], Reply 2 [Reply 6 [], Reply 6 [], Reply 6 [], Reply 7 [Reply 1 [],
     Reply 0 [Reply 0 []], Reply 1 []], Reply 6 []]], Reply 4 [Reply 3 [Reply 5 [], Reply 5
     [], Reply 1 [Reply 7 [], Reply 8 [Reply 0 []], Reply 7 []], Reply 5 [], Reply 5 []],
     Reply 3 [Reply 5 [], Reply 5 [], Reply 8 [Reply 2 [Reply 0 []], Reply 0 [], Reply 0
     []], Reply 5 [], Reply 5 []], Reply 1 [Reply 7 [], Reply 7 [], Reply 7 [], Reply 8
     [Reply 3 [Reply 0 []], Reply 0 [], Reply 0 []], Reply 7 []], Reply 0 [Reply 8 [],
     Reply 8 [], Reply 8 [], Reply 8 [], Reply 7 [Reply 2 [Reply 0 []], Reply 1 [], Reply 1
     []]], Reply 1 [Reply 7 [], Reply 7 [], Reply 7 [], Reply 8 [Reply 3 [Reply 0 []],
     Reply 0 [], Reply 0 []], Reply 7 []], Reply 8 [Reply 3 [Reply 5 [], Reply 5 [], Reply
     1 [Reply 0 []]], Reply 0 [], Reply 0 [], Reply 0 [], Reply 0 []], Reply 7 [Reply 1 [],
     Reply 3 [Reply 5 [], Reply 5 [], Reply 2 [Reply 0 []]], Reply 1 [], Reply 1 [], Reply
     1 []]], Reply 4 [Reply 3 [Reply 5 [], Reply 5 [], Reply 2 [Reply 6 [], Reply 8 [Reply
     0 []], Reply 6 []], Reply 5 [], Reply 5 []], Reply 0 [Reply 8 [], Reply 8 [], Reply 8
     [], Reply 8 [], Reply 6 [Reply 3 [], Reply 2 [], Reply 2 []]], Reply 3 [Reply 5 [],
     Reply 5 [], Reply 8 [Reply 1 [Reply 0 []], Reply 0 [], Reply 0 []], Reply 5 [], Reply
     5 []], Reply 0 [Reply 8 [], Reply 8 [], Reply 8 [], Reply 8 [], Reply 6 [Reply 2 [],
     Reply 5 [Reply 0 []], Reply 2 []]], Reply 2 [Reply 6 [], Reply 6 [], Reply 6 [], Reply
     8 [Reply 3 [Reply 0 []], Reply 0 [], Reply 0 []], Reply 6 []], Reply 8 [Reply 3 [Reply
     5 [], Reply 5 [], Reply 1 [Reply 0 []]], Reply 0 [], Reply 0 [], Reply 0 [], Reply 0
     []], Reply 6 [Reply 2 [], Reply 2 [], Reply 5 [Reply 3 [], Reply 3 [], Reply 0 [Reply
     0 []]], Reply 2 [], Reply 2 []]], Reply 4 [Reply 1 [Reply 7 [], Reply 7 [], Reply 7
     [], Reply 7 [], Reply 6 [Reply 5 [Reply 0 []], Reply 2 [], Reply 2 []]], Reply 3
     [Reply 5 [], Reply 5 [], Reply 2 [Reply 6 [], Reply 7 [Reply 0 []], Reply 6 []], Reply
     5 [], Reply 5 []], Reply 5 [Reply 3 [], Reply 3 [], Reply 1 [Reply 7 [], Reply 7 [],
     Reply 6 [Reply 0 []]], Reply 3 [], Reply 3 []], Reply 1 [Reply 7 [], Reply 7 [], Reply
     7 [], Reply 7 [], Reply 6 [Reply 2 [], Reply 5 [Reply 0 []], Reply 2 []]], Reply 2
     [Reply 6 [], Reply 6 [], Reply 6 [], Reply 7 [Reply 1 [], Reply 0 [Reply 0 []], Reply
     1 []], Reply 6 []], Reply 7 [Reply 1 [], Reply 3 [Reply 5 [], Reply 5 [], Reply 2
     [Reply 0 []]], Reply 1 [], Reply 1 [], Reply 1 []], Reply 6 [Reply 2 [], Reply 2 [],
     Reply 5 [Reply 3 [], Reply 3 [], Reply 0 [Reply 0 []]], Reply 2 [], Reply 2 []]]]"

text \<open>The answers of the first player after each of its nine openings.\<close>

definition first_player_draws_0 :: "strategy list" where
  "first_player_draws_0 =
     [Reply 3 [Reply 6 [], Reply 6 [], Reply 6 [], Reply 4 [Reply 5 [], Reply 8 [], Reply 5
     [], Reply 5 []], Reply 6 [], Reply 6 []], Reply 3 [Reply 6 [], Reply 6 [], Reply 6 [],
     Reply 4 [Reply 5 [], Reply 8 [], Reply 5 [], Reply 5 []], Reply 6 [], Reply 6 []],
     Reply 1 [Reply 4 [Reply 7 [], Reply 7 [], Reply 8 [], Reply 7 []], Reply 2 [], Reply 2
     [], Reply 2 [], Reply 2 [], Reply 2 []], Reply 1 [Reply 6 [Reply 5 [Reply 8 [], Reply
     7 []], Reply 3 [], Reply 3 [], Reply 3 []], Reply 2 [], Reply 2 [], Reply 2 [], Reply
     2 [], Reply 2 []], Reply 2 [Reply 4 [Reply 6 [], Reply 8 [], Reply 6 [], Reply 6 []],
     Reply 1 [], Reply 1 [], Reply 1 [], Reply 1 [], Reply 1 []], Reply 1 [Reply 4 [Reply 7
     [], Reply 7 [], Reply 8 [], Reply 7 []], Reply 2 [], Reply 2 [], Reply 2 [], Reply 2
     [], Reply 2 []], Reply 2 [Reply 4 [Reply 6 [], Reply 6 [], Reply 8 [], Reply 6 []],
     Reply 1 [], Reply 1 [], Reply 1 [], Reply 1 [], Reply 1 []], Reply 2 [Reply 6 [Reply 4
     [], Reply 3 [], Reply 3 [], Reply 3 []], Reply 1 [], Reply 1 [], Reply 1 [], Reply 1
     [], Reply 1 []]]"

definition first_player_draws_1 :: "strategy list" where
  "first_player_draws_1 =
     [Reply 4 [Reply 7 [], Reply 7 [], Reply 7 [], Reply 7 [], Reply 3 [Reply 5 [], Reply 2
     [Reply 8 [], Reply 6 []], Reply 5 [], Reply 5 []], Reply 7 []], Reply 4 [Reply 7 [],
     Reply 7 [], Reply 7 [], Reply 7 [], Reply 3 [Reply 5 [], Reply 8 [Reply 6 [], Reply 0
     []], Reply 5 [], Reply 5 []], Reply 7 []], Reply 0 [Reply 4 [Reply 7 [], Reply 7 [],
     Reply 8 [], Reply 7 []], Reply 2 [], Reply 2 [], Reply 2 [], Reply 2 [], Reply 2 []],
     Reply 0 [Reply 6 [Reply 5 [Reply 8 [], Reply 7 []], Reply 3 [], Reply 3 [], Reply 3
     []], Reply 2 [], Reply 2 [], Reply 2 [], Reply 2 [], Reply 2 []], Reply 2 [Reply 4
     [Reply 6 [], Reply 7 [], Reply 6 [], Reply 6 []], Reply 0 [], Reply 0 [], Reply 0 [],
     Reply 0 [], Reply 0 []], Reply 0 [Reply 4 [Reply 7 [], Reply 7 [], Reply 8 [], Reply 7
     []], Reply 2 [], Reply 2 [], Reply 2 [], Reply 2 [], Reply 2 []], Reply 0 [Reply 6
     [Reply 4 [Reply 8 [], Reply 5 []], Reply 3 [], Reply 3 [], Reply 3 []], Reply 2 [],
     Reply 2 [], Reply 2 [], Reply 2 [], Reply 2 []], Reply 2 [Reply 4 [Reply 6 [], Reply 6
     [], Reply 7 [], Reply 6 []], Reply 0 [], Reply 0 [], Reply 0 [], Reply 0 [], Reply 0
     []]]"

definition first_player_draws_2 :: "strategy list" where
  "first_player_draws_2 =
     [Reply 5 [Reply 8 [], Reply 8 [], Reply 8 [], Reply 8 [], Reply 8 [], Reply 4 [Reply 3
     [], Reply 6 [], Reply 3 [], Reply 3 []]], Reply 4 [Reply 6 [], Reply 6 [], Reply 6 [],
     Reply 5 [Reply 3 [], Reply 8 [], Reply 3 [], Reply 3 []], Reply 6 [], Reply 6 []],
     Reply 0 [Reply 4 [Reply 6 [], Reply 8 [], Reply 6 [], Reply 6 []], Reply 1 [], Reply 1
     [], Reply 1 [], Reply 1 [], Reply 1 []], Reply 1 [Reply 8 [Reply 5 [], Reply 3 [Reply
     7 [], Reply 6 []], Reply 5 [], Reply 5 []], Reply 0 [], Reply 0 [], Reply 0 [], Reply
     0 [], Reply 0 []], Reply 0 [Reply 4 [Reply 6 [], Reply 8 [], Reply 6 [], Reply 6 []],
     Reply 1 [], Reply 1 [], Reply 1 [], Reply 1 [], Reply 1 []], Reply 0 [Reply 8 [Reply 4
     [], Reply 5 [], Reply 4 [], Reply 4 []], Reply 1 [], Reply 1 [], Reply 1 [], Reply 1
     [], Reply 1 []], Reply 0 [Reply 4 [Reply 6 [], Reply 6 [], Reply 8 [], Reply 6 []],
     Reply 1 [], Reply 1 [], Reply 1 [], Reply 1 [], Reply 1 []], Reply 0 [Reply 6 [Reply 4
     [], Reply 3 [], Reply 3 [], Reply 3 []], Reply 1 [], Reply 1 [], Reply 1 [], Reply 1
     [], Reply 1 []]]"

definition first_player_draws_3 :: "strategy list" where
  "first_player_draws_3 =
     [Reply 4 [Reply 5 [], Reply 5 [], Reply 1 [Reply 7 [], Reply 7 [], Reply 2 [Reply 8
     [], Reply 6 []], Reply 7 []], Reply 5 [], Reply 5 [], Reply 5 []], Reply 0 [Reply 6
     [], Reply 6 [], Reply 6 [], Reply 4 [Reply 5 [], Reply 8 [], Reply 5 [], Reply 5 []],
     Reply 6 [], Reply 6 []], Reply 0 [Reply 6 [], Reply 6 [], Reply 6 [], Reply 4 [Reply 5
     [], Reply 8 [], Reply 5 [], Reply 5 []], Reply 6 [], Reply 6 []], Reply 0 [Reply 6 [],
     Reply 6 [], Reply 6 [], Reply 2 [Reply 7 [Reply 8 [], Reply 5 []], Reply 1 [], Reply 1
     [], Reply 1 []], Reply 6 [], Reply 6 []], Reply 0 [Reply 6 [], Reply 6 [], Reply 6 [],
     Reply 2 [Reply 4 [Reply 8 [], Reply 7 []], Reply 1 [], Reply 1 [], Reply 1 []], Reply
     6 [], Reply 6 []], Reply 4 [Reply 5 [], Reply 5 [], Reply 5 [], Reply 1 [Reply 7 [],
     Reply 7 [], Reply 8 [Reply 2 [], Reply 0 []], Reply 7 []], Reply 5 [], Reply 5 []],
     Reply 4 [Reply 5 [], Reply 5 [], Reply 5 [], Reply 0 [Reply 6 [], Reply 6 [], Reply 8
     [], Reply 6 []], Reply 5 [], Reply 5 []], Reply 6 [Reply 4 [Reply 2 [], Reply 5 [],
     Reply 2 [], Reply 2 []], Reply 0 [], Reply 0 [], Reply 0 [], Reply 0 [], Reply 0 []]]"

definition first_player_draws_4 :: "strategy list" where
  "first_player_draws_4 =
     [Reply 1 [Reply 7 [], Reply 7 [], Reply 7 [], Reply 7 [], Reply 3 [Reply 5 [], Reply 2
     [Reply 8 [], Reply 6 []], Reply 5 [], Reply 5 []], Reply 7 []], Reply 0 [Reply 8 [],
     Reply 8 [], Reply 8 [], Reply 8 [], Reply 8 [], Reply 3 [Reply 5 [], Reply 6 [], Reply
     5 [], Reply 5 []]], Reply 0 [Reply 8 [], Reply 8 [], Reply 8 [], Reply 8 [], Reply 8
     [], Reply 5 [Reply 3 [], Reply 1 [Reply 7 [], Reply 6 []], Reply 3 [], Reply 3 []]],
     Reply 0 [Reply 8 [], Reply 8 [], Reply 8 [], Reply 8 [], Reply 8 [], Reply 1 [Reply 7
     [], Reply 2 [], Reply 2 [], Reply 2 []]], Reply 0 [Reply 8 [], Reply 8 [], Reply 8 [],
     Reply 8 [], Reply 8 [], Reply 2 [Reply 6 [], Reply 1 [], Reply 1 [], Reply 1 []]],
     Reply 0 [Reply 8 [], Reply 8 [], Reply 8 [], Reply 8 [], Reply 8 [], Reply 7 [Reply 2
     [Reply 5 [], Reply 3 []], Reply 1 [], Reply 1 [], Reply 1 []]], Reply 0 [Reply 8 [],
     Reply 8 [], Reply 8 [], Reply 8 [], Reply 8 [], Reply 6 [Reply 2 [], Reply 3 [], Reply
     2 [], Reply 2 []]], Reply 1 [Reply 7 [], Reply 7 [], Reply 7 [], Reply 7 [], Reply 7
     [], Reply 6 [Reply 2 [], Reply 5 [Reply 3 [], Reply 0 []], Reply 2 [], Reply 2 []]]]"

definition first_player_draws_5 :: "strategy list" where
  "first_player_draws_5 =
     [Reply 2 [Reply 8 [], Reply 8 [], Reply 8 [], Reply 8 [], Reply 8 [], Reply 4 [Reply 3
     [], Reply 6 [], Reply 3 [], Reply 3 []]], Reply 2 [Reply 8 [], Reply 8 [], Reply 8 [],
     Reply 8 [], Reply 8 [], Reply 4 [Reply 3 [], Reply 6 [], Reply 3 [], Reply 3 []]],
     Reply 4 [Reply 3 [], Reply 3 [], Reply 0 [Reply 8 [], Reply 8 [], Reply 8 [], Reply 1
     [Reply 7 [], Reply 6 []]], Reply 3 [], Reply 3 [], Reply 3 []], Reply 2 [Reply 8 [],
     Reply 8 [], Reply 8 [], Reply 8 [], Reply 8 [], Reply 0 [Reply 4 [Reply 7 [], Reply 6
     []], Reply 1 [], Reply 1 [], Reply 1 []]], Reply 2 [Reply 8 [], Reply 8 [], Reply 8
     [], Reply 8 [], Reply 8 [], Reply 0 [Reply 7 [Reply 6 [], Reply 3 []], Reply 1 [],
     Reply 1 [], Reply 1 []]], Reply 8 [Reply 2 [], Reply 2 [], Reply 4 [Reply 3 [], Reply
     0 [], Reply 0 [], Reply 0 []], Reply 2 [], Reply 2 [], Reply 2 []], Reply 4 [Reply 3
     [], Reply 3 [], Reply 3 [], Reply 2 [Reply 6 [], Reply 6 [], Reply 8 [], Reply 6 []],
     Reply 3 [], Reply 3 []], Reply 4 [Reply 3 [], Reply 3 [], Reply 3 [], Reply 1 [Reply 7
     [], Reply 7 [], Reply 7 [], Reply 6 [Reply 2 [], Reply 0 []]], Reply 3 [], Reply 3
     []]]"

definition first_player_draws_6 :: "strategy list" where
  "first_player_draws_6 =
     [Reply 2 [Reply 4 [], Reply 4 [], Reply 8 [Reply 5 [], Reply 5 [], Reply 7 [], Reply 5
     []], Reply 4 [], Reply 4 [], Reply 4 []], Reply 0 [Reply 3 [], Reply 4 [Reply 8 [],
     Reply 2 [], Reply 2 [], Reply 2 []], Reply 3 [], Reply 3 [], Reply 3 [], Reply 3 []],
     Reply 0 [Reply 3 [], Reply 8 [Reply 4 [], Reply 7 [], Reply 4 [], Reply 4 []], Reply 3
     [], Reply 3 [], Reply 3 [], Reply 3 []], Reply 4 [Reply 2 [], Reply 2 [], Reply 7
     [Reply 1 [], Reply 8 [], Reply 1 [], Reply 1 []], Reply 2 [], Reply 2 [], Reply 2 []],
     Reply 3 [Reply 8 [Reply 7 [], Reply 7 [], Reply 7 [], Reply 1 [Reply 5 [], Reply 2
     []]], Reply 0 [], Reply 0 [], Reply 0 [], Reply 0 [], Reply 0 []], Reply 0 [Reply 3
     [], Reply 3 [], Reply 4 [Reply 2 [], Reply 8 [], Reply 2 [], Reply 2 []], Reply 3 [],
     Reply 3 [], Reply 3 []], Reply 0 [Reply 3 [], Reply 3 [], Reply 2 [Reply 4 [], Reply 1
     [], Reply 1 [], Reply 1 []], Reply 3 [], Reply 3 [], Reply 3 []], Reply 0 [Reply 3 [],
     Reply 3 [], Reply 2 [Reply 4 [], Reply 1 [], Reply 1 [], Reply 1 []], Reply 3 [],
     Reply 3 [], Reply 3 []]]"

definition first_player_draws_7 :: "strategy list" where
  "first_player_draws_7 =
     [Reply 6 [Reply 8 [], Reply 8 [], Reply 8 [], Reply 8 [], Reply 8 [], Reply 4 [Reply 2
     [], Reply 1 [], Reply 1 [], Reply 1 []]], Reply 6 [Reply 8 [], Reply 8 [], Reply 8 [],
     Reply 8 [], Reply 8 [], Reply 0 [Reply 3 [], Reply 2 [Reply 5 [], Reply 4 []], Reply 3
     [], Reply 3 []]], Reply 8 [Reply 6 [], Reply 6 [], Reply 6 [], Reply 6 [], Reply 6 [],
     Reply 4 [Reply 1 [], Reply 0 [], Reply 0 [], Reply 0 []]], Reply 4 [Reply 1 [], Reply
     6 [Reply 2 [], Reply 8 [], Reply 2 [], Reply 2 []], Reply 1 [], Reply 1 [], Reply 1
     [], Reply 1 []], Reply 6 [Reply 8 [], Reply 8 [], Reply 8 [], Reply 8 [], Reply 8 [],
     Reply 0 [Reply 3 [], Reply 3 [], Reply 5 [Reply 2 [], Reply 1 []], Reply 3 []]], Reply
     4 [Reply 1 [], Reply 6 [Reply 2 [], Reply 8 [], Reply 2 [], Reply 2 []], Reply 1 [],
     Reply 1 [], Reply 1 [], Reply 1 []], Reply 4 [Reply 1 [], Reply 0 [Reply 8 [], Reply 8
     [], Reply 8 [], Reply 2 [Reply 5 [], Reply 3 []]], Reply 1 [], Reply 1 [], Reply 1 [],
     Reply 1 []], Reply 4 [Reply 1 [], Reply 2 [Reply 6 [], Reply 6 [], Reply 6 [], Reply 0
     [Reply 5 [], Reply 3 []]], Reply 1 [], Reply 1 [], Reply 1 [], Reply 1 []]]"

definition first_player_draws_8 :: "strategy list" where
  "first_player_draws_8 =
     [Reply 2 [Reply 5 [], Reply 5 [], Reply 5 [], Reply 6 [Reply 4 [], Reply 4 [], Reply 7
     [], Reply 4 []], Reply 5 [], Reply 5 []], Reply 2 [Reply 5 [], Reply 5 [], Reply 5 [],
     Reply 4 [Reply 6 [], Reply 0 [], Reply 0 [], Reply 0 []], Reply 5 [], Reply 5 []],
     Reply 0 [Reply 4 [], Reply 4 [], Reply 6 [Reply 3 [], Reply 7 [], Reply 3 [], Reply 3
     []], Reply 4 [], Reply 4 [], Reply 4 []], Reply 2 [Reply 5 [], Reply 5 [], Reply 5 [],
     Reply 4 [Reply 6 [], Reply 0 [], Reply 0 [], Reply 0 []], Reply 5 [], Reply 5 []],
     Reply 5 [Reply 2 [], Reply 2 [], Reply 6 [Reply 7 [], Reply 7 [], Reply 7 [], Reply 1
     [Reply 3 [], Reply 0 []]], Reply 2 [], Reply 2 [], Reply 2 []], Reply 4 [Reply 6
     [Reply 2 [], Reply 7 [], Reply 2 [], Reply 2 []], Reply 0 [], Reply 0 [], Reply 0 [],
     Reply 0 [], Reply 0 []], Reply 0 [Reply 4 [], Reply 4 [], Reply 4 [], Reply 2 [Reply 5
     [], Reply 1 [], Reply 1 [], Reply 1 []], Reply 4 [], Reply 4 []], Reply 2 [Reply 5 [],
     Reply 5 [], Reply 5 [], Reply 5 [], Reply 0 [Reply 4 [], Reply 1 [], Reply 1 [], Reply
     1 []], Reply 5 []]]"

section \<open>Concrete networks and inputs\<close>

definition const_source :: "real \<Rightarrow> random_source" where
  "const_source c = (\<lambda>k. c)"

definition example_config :: NetworkConfig where
  "example_config =
     \<lparr>inputSize = 10, hiddenLayers = [2], outputSize = 9, learningRate = 0.01,
      valueLossWeight = None, weightDecay = None, gradientClip = None, dropout = None\<rparr>"

definition zero_layer :: "nat \<Rightarrow> nat \<Rightarrow> Layer" where
  "zero_layer n k =
     \<lparr>weights = replicate n (replicate k 0), biases = replicate k 0,
      weightDeltas = replicate n (replicate k 0), biasDeltas = replicate k 0,
      inputActivation = [], outputActivation = []\<rparr>"

text \<open>The network that \<open>new NeuralNetwork(example_config)\<close> builds when every random
  number is \<open>1/2\<close>: all weights are \<open>(0.5 * 2 - 1) * limit = 0\<close>.\<close>

definition zero_network :: NeuralNetwork where
  "zero_network =
     \<lparr>config = example_config, layers = [zero_layer 10 2, zero_layer 2 9],
      valueHead = zero_layer 2 1, trainingCount = 0, lastHiddenActivation = [],
      nn_valueLossWeight = 0.5, nn_weightDecay = 0.0005, nn_gradientClip = 5.0,
      currentLearningRate = 0.01, nn_dropout = 0.15, isTraining = False,
      dropoutMasks = []\<rparr>"


text \<open>A configuration with an input size of 0 and no hidden layer.\<close>

definition empty_config :: NetworkConfig where
  "empty_config = example_config\<lparr>inputSize := 0, hiddenLayers := []\<rparr>"

definition negative_config :: NetworkConfig where
  "negative_config = example_config\<lparr>hiddenLayers := [4, - 1]\<rparr>"

text \<open>A snapshot whose first layer fits \<open>zero_network\<close> and whose second layer has three
  rows where the policy head has two.\<close>

definition ones_layer :: "nat \<Rightarrow> nat \<Rightarrow> Layer" where
  "ones_layer n k = (zero_layer n k)\<lparr>weights := replicate n (replicate k 1)\<rparr>"

definition misfit_snapshot :: NetworkSnapshot where
  "misfit_snapshot =
     \<lparr>snap_config = example_config,
      snap_weights = [replicate 10 [1, 1], replicate 3 (replicate 9 1)],
      snap_biases = [[1, 1], replicate 9 1],
      valueHeadWeights = None,
      valueHeadBiases = None,
      snap_trainingCount = 7\<rparr>"

text \<open>The opening position as a training example, with the centre as its target.\<close>

definition opening_example :: TrainingExample where
  "opening_example =
     \<lparr>ex_input = [0, 0, 0, 0, 0, 0, 0, 0, 0, 1],
      ex_target = [0, 0, 0, 0, 1, 0, 0, 0, 0],
      ex_mask = [1, 1, 1, 1, 1, 1, 1, 1, 1],
      ex_weight = 1,
      ex_value = 0\<rparr>"

text \<open>\<open>zero_network\<close> after one call of \<open>train\<close> on that example.\<close>

definition trained_network :: NeuralNetwork where
  "trained_network =
     fst (snd (projr (train zero_network (const_source (1 / 2)) [opening_example])))"

text \<open>A second network for the same configuration, from other random numbers.\<close>

definition fresh_network :: NeuralNetwork where
  "fresh_network =
     fst (projr (NeuralNetwork_new (snap_config (fst (getSnapshot trained_network)))
                                   (const_source 0)))"

text \<open>A network whose two hidden units are active (bias 1), after a forward pass.\<close>

definition active_network :: NeuralNetwork where
  "active_network =
     fst (snd (projr (forward
       (zero_network\<lparr>layers := [(zero_layer 10 2)\<lparr>biases := [1, 1]\<rparr>, zero_layer 2 9]\<rparr>)
       (const_source (1 / 2)) (ex_input opening_example) None)))"

section \<open>Properties of the network\<close>

subsection \<open>The masked softmax\<close>

lemma list_max_replicate: "0 < n \<Longrightarrow> list_max (replicate n c) = c"
proof (induction n)
  case 0 then show ?case by simp
next
  case (Suc n)
  then show ?case by (cases n) auto
qed

lemma foldl_add_sum_list: "foldl (+) (a::real) xs = a + sum_list xs"
  by (induction xs arbitrary: a) auto





lemma softmax_length: "length (softmax logits msk) = length logits"
  by (simp add: softmax_def Let_def)

lemma softmax_all_masked:
  assumes "length logits \<le> length m" and "\<forall>i<length m. m ! i = 0"
  shows "softmax logits (Some m) = replicate (length logits) (1 / real (length logits))"
proof (cases "logits = []")
  case True
  then show ?thesis by (simp add: softmax_def)
next
  case False
  let ?n = "length logits"
  have adj: "map (\<lambda>i. if masked (Some m) i then - 1000000000 else logits ! i) [0..<?n]
             = replicate ?n (- 1000000000)"
    using assms by (intro nth_equalityI) (auto simp: masked_def)
  have n: "0 < ?n" using False by simp
  show ?thesis
    unfolding softmax_def adj Let_def
    using n by (simp add: list_max_replicate math_exp_def foldl_add_sum_list sum_list_replicate)
qed

lemma forward_policy:
  assumes "forward nn r input msk = Inr res"
  shows "\<exists>logits. policy_logits nn r input = Inr logits
                  \<and> out_policy (fst res) = softmax logits msk"
  using assms
  by (auto simp: forward_def policy_logits_def Let_def split: if_splits sum.splits prod.splits)



lemma zero_forward_ok:
  "\<not> isl (forward zero_network (const_source (1 / 2)) (replicate 10 0) msk)"
  by (simp add: forward_def zero_network_def zero_layer_def layer_outputs_def affine_unit_def
      Let_def generateDropoutMask_def relu_def eval_nat_numeral)

lemma zero_forward_policy:
  "out_policy (fst (projr (forward zero_network (const_source (1 / 2)) (replicate 10 0) msk)))
   = softmax [0, 0, 0, 0, 0, 0, 0, 0, 0] msk"
  by (simp add: forward_def zero_network_def zero_layer_def layer_outputs_def affine_unit_def
      Let_def generateDropoutMask_def relu_def eval_nat_numeral)

text \<open>
  \<open>unit_magnitude\<close> bounds every product and every partial sum of the loop of a unit.
\<close>

lemma partial_sum_le:
  fixes f :: "nat \<Rightarrow> real"
  shows "\<bar>foldl (\<lambda>acc i. acc + f i) b [0..<k]\<bar> \<le> \<bar>b\<bar> + sum_list (map (\<lambda>i. \<bar>f i\<bar>) [0..<k])"
proof (induction k)
  case 0
  then show ?case by simp
next
  case (Suc k)
  have "\<bar>foldl (\<lambda>acc i. acc + f i) b [0..<k] + f k\<bar>
        \<le> \<bar>foldl (\<lambda>acc i. acc + f i) b [0..<k]\<bar> + \<bar>f k\<bar>"
    by (rule abs_triangle_ineq)
  then show ?case using Suc by simp
qed

lemma sum_abs_mono:
  fixes f :: "nat \<Rightarrow> real"
  assumes "k \<le> n"
  shows "sum_list (map (\<lambda>i. \<bar>f i\<bar>) [0..<k]) \<le> sum_list (map (\<lambda>i. \<bar>f i\<bar>) [0..<n])"
proof -
  have "[0..<n] = [0..<k] @ [k..<n]"
    using assms upt_add_eq_append [of 0 k "n - k"] by simp
  moreover have "0 \<le> sum_list (map (\<lambda>i. \<bar>f i\<bar>) [k..<n])" by (rule sum_list_nonneg) auto
  ultimately show ?thesis by simp
qed

lemma unit_magnitude_bounds:
  assumes "k \<le> length activation"
  shows "\<bar>foldl (\<lambda>acc i. acc + activation ! i * (weights layer ! i ! j)) (biases layer ! j)
            [0..<k]\<bar> \<le> unit_magnitude layer activation j"
    and "k < length activation \<Longrightarrow>
         \<bar>activation ! k * (weights layer ! k ! j)\<bar> \<le> unit_magnitude layer activation j"
proof -
  let ?f = "\<lambda>i. activation ! i * (weights layer ! i ! j)"
  have "\<bar>foldl (\<lambda>acc i. acc + ?f i) (biases layer ! j) [0..<k]\<bar>
        \<le> \<bar>biases layer ! j\<bar> + sum_list (map (\<lambda>i. \<bar>?f i\<bar>) [0..<k])"
    by (rule partial_sum_le)
  also have "\<dots> \<le> unit_magnitude layer activation j"
    unfolding unit_magnitude_def using sum_abs_mono [OF assms, of ?f] by simp
  finally show "\<bar>foldl (\<lambda>acc i. acc + ?f i) (biases layer ! j) [0..<k]\<bar>
                \<le> unit_magnitude layer activation j" .
  assume k: "k < length activation"
  have "\<bar>?f k\<bar> \<le> sum_list (map (\<lambda>i. \<bar>?f i\<bar>) [0..<length activation])"
    by (rule member_le_sum_list) (use k in auto)
  then show "\<bar>?f k\<bar> \<le> unit_magnitude layer activation j"
    unfolding unit_magnitude_def by simp
qed



text \<open>
  C10: when every entry of the mask passed to \<open>forward\<close> is 0, the returned policy is not
  all zeros: every index, although illegal, gets the same probability \<open>1 / n\<close>, where
  \<open>n\<close> is the number of outputs (\<open>1 / 9\<close> for the nine cells), because subtracting the
  maximum cancels the value \<open>-1e9\<close> given to every logit.
\<close>

theorem forward_all_masked_uniform:
  assumes "forward nn r input (Some m) = Inr res"
    and "length (out_policy (fst res)) \<le> length m"
    and "\<forall>i<length m. m ! i = 0"
  shows "out_policy (fst res)
         = replicate (length (out_policy (fst res)))
                     (1 / real (length (out_policy (fst res))))"
proof -
  obtain logits where l: "out_policy (fst res) = softmax logits (Some m)"
    using forward_policy [OF assms(1)] by blast
  have "length logits \<le> length m" using assms(2) l by (simp add: softmax_length)
  then show ?thesis
    using softmax_all_masked [OF _ assms(3), of logits] l by (simp add: softmax_length)
qed

theorem forward_all_masked_uniform_witness:
  "\<not> isl (forward zero_network (const_source (1 / 2)) (replicate 10 0)
                   (Some [0, 0, 0, 0, 0, 0, 0, 0, 0]))
   \<and> out_policy (fst (projr (forward zero_network (const_source (1 / 2)) (replicate 10 0)
                                     (Some [0, 0, 0, 0, 0, 0, 0, 0, 0]))))
     = [1 / 9, 1 / 9, 1 / 9, 1 / 9, 1 / 9, 1 / 9, 1 / 9, 1 / 9, 1 / 9]"
proof -
  let ?m = "[0, 0, 0, 0, 0, 0, 0, 0, 0] :: real list"
  let ?f = "forward zero_network (const_source (1 / 2)) (replicate 10 0) (Some ?m)"
  have ok: "\<not> isl ?f" by (rule zero_forward_ok)
  then have e: "?f = Inr (projr ?f)" by simp
  have len: "length (out_policy (fst (projr ?f))) = 9"
    by (simp add: zero_forward_policy softmax_length)
  have z: "\<forall>i<length ?m. ?m ! i = 0" by (simp add: nth_Cons')
  show ?thesis
    using ok forward_all_masked_uniform [OF e _ z] len by (simp add: eval_nat_numeral)
qed




subsection \<open>Construction\<close>

lemma new_Layer_neg: "a < 0 \<or> b < 0 \<Longrightarrow> new_Layer a b r = Inl RangeError"
  by (auto simp: new_Layer_def)

lemma new_Layer_error: "new_Layer a b r = Inl e \<Longrightarrow> e = RangeError"
  by (simp add: new_Layer_def Let_def split: if_splits)

lemma new_Layer_in_range:
  "0 \<le> a \<Longrightarrow> a < 4294967296 \<Longrightarrow> 0 \<le> b \<Longrightarrow> b < 4294967296 \<Longrightarrow>
   \<exists>l. new_Layer a b r = Inr (l, advance (nat a * nat b) r)"
  by (simp add: new_Layer_def Let_def)

lemma build_trunk_error: "build_trunk xs r = Inl e \<Longrightarrow> e = RangeError"
proof (induction xs r rule: build_trunk.induct)
  case (1 a b rest r)
  show ?case
  proof (cases "new_Layer a b r")
    case (Inl e')
    then show ?thesis using "1.prems" new_Layer_error [OF Inl] by simp
  next
    case (Inr x)
    obtain l r' where x: "x = (l, r')" by (cases x)
    show ?thesis
      using "1.IH" [OF Inr x [symmetric]] "1.prems" Inr x by (auto split: sum.splits)
  qed
qed auto

lemma build_trunk_neg:
  "2 \<le> length xs \<Longrightarrow> \<exists>x\<in>set xs. x < 0 \<Longrightarrow> build_trunk xs r = Inl RangeError"
proof (induction xs r rule: build_trunk.induct)
  case (1 a b rest r)
  show ?case
  proof (cases "new_Layer a b r")
    case (Inl e)
    then show ?thesis using new_Layer_error [OF Inl] by simp
  next
    case (Inr x)
    obtain l r' where x: "x = (l, r')" by (cases x)
    have nn: "\<not> (a < 0 \<or> b < 0)" using Inr new_Layer_neg [of a b r] by auto
    with "1.prems" have ex: "\<exists>x\<in>set (b # rest). x < 0" by auto
    with nn have "rest \<noteq> []" by auto
    then have "2 \<le> length (b # rest)" by (cases rest) auto
    then have "build_trunk (b # rest) r' = Inl RangeError"
      using "1.IH" [OF Inr x [symmetric]] ex by blast
    then show ?thesis using Inr x by simp
  qed
qed auto

lemma build_trunk_in_range:
  "\<forall>x\<in>set xs. 0 \<le> x \<and> x < 4294967296 \<Longrightarrow> \<not> isl (build_trunk xs r)"
proof (induction xs r rule: build_trunk.induct)
  case (1 a b rest r)
  then obtain l where l: "new_Layer a b r = Inr (l, advance (nat a * nat b) r)"
    using new_Layer_in_range [of a b r] by auto
  have "\<not> isl (build_trunk (b # rest) (advance (nat a * nat b) r))"
    using "1.IH" [OF l refl] "1.prems" by auto
  then show ?case using l by (auto split: sum.splits)
qed auto

lemma constructor_in_range:
  assumes "\<forall>s\<in>set (inputSize cfg # hiddenLayers cfg @ [outputSize cfg]). 0 \<le> s \<and> s < 4294967296"
  shows "\<not> isl (NeuralNetwork_new cfg r)"
proof -
  let ?hs = "inputSize cfg # hiddenLayers cfg"
  have "\<not> isl (build_trunk ?hs r)" using assms by (intro build_trunk_in_range) auto
  then obtain t r1 where p: "build_trunk ?hs r = Inr (t, r1)"
    by (cases "build_trunk ?hs r") auto
  have "last ?hs \<in> set ?hs" by (rule last_in_set) simp
  then have a: "0 \<le> last ?hs" "last ?hs < 4294967296"
    and b: "0 \<le> outputSize cfg" "outputSize cfg < 4294967296"
    using assms by auto
  obtain pl where pl: "new_Layer (last ?hs) (outputSize cfg) r1
                       = Inr (pl, advance (nat (last ?hs) * nat (outputSize cfg)) r1)"
    using new_Layer_in_range [OF a b] by blast
  obtain vl where vl: "new_Layer (last ?hs) 1 (advance (nat (last ?hs) * nat (outputSize cfg)) r1)
                       = Inr (vl, advance (nat (last ?hs) * nat 1)
                                   (advance (nat (last ?hs) * nat (outputSize cfg)) r1))"
    using new_Layer_in_range [OF a, of 1] by auto
  show ?thesis
    using p pl vl by (simp add: NeuralNetwork_new_def Let_def butlast_append)
qed

text \<open>
  C6, as amended: for every configuration with a negative size (input size, a hidden
  width or output size below 0), the constructor raises rather than producing a
  network: the RangeError of allocating an array of negative length.
\<close>

theorem constructor_raises_for_negative_size:
  assumes "\<exists>s\<in>set (inputSize cfg # hiddenLayers cfg @ [outputSize cfg]). s < 0"
  shows "NeuralNetwork_new cfg r = Inl RangeError"
proof (cases "hiddenLayers cfg = []")
  case True
  then have "inputSize cfg < 0 \<or> outputSize cfg < 0" using assms by auto
  then show ?thesis
    using True by (simp add: NeuralNetwork_new_def Let_def new_Layer_neg)
next
  case False
  then have l: "2 \<le> length (inputSize cfg # hiddenLayers cfg)"
    by (cases "hiddenLayers cfg") auto
  show ?thesis
  proof (cases "build_trunk (inputSize cfg # hiddenLayers cfg) r")
    case (Inl e)
    then show ?thesis
      using build_trunk_error [OF Inl]
      by (simp add: NeuralNetwork_new_def Let_def butlast_append)
  next
    case (Inr x)
    obtain t r1 where x: "x = (t, r1)" by (cases x)
    have "\<not> (\<exists>x\<in>set (inputSize cfg # hiddenLayers cfg). x < 0)"
      using build_trunk_neg [OF l, of r] Inr by auto
    then have out: "outputSize cfg < 0" using assms by auto
    show ?thesis
      using Inr x out by (simp add: NeuralNetwork_new_def Let_def butlast_append new_Layer_neg)
  qed
qed

theorem constructor_raises_for_negative_size_witness:
  "(\<exists>s\<in>set (inputSize negative_config # hiddenLayers negative_config
               @ [outputSize negative_config]). s < 0)
   \<and> NeuralNetwork_new negative_config (const_source 0) = Inl RangeError"
  using constructor_raises_for_negative_size [of negative_config "const_source 0"]
  by (simp add: negative_config_def example_config_def)

text \<open>
  C6 as stated fails: the constructor has no check of its own. \<open>empty_config\<close> has the
  non-positive input size 0 and an empty list of hidden layers, and the constructor
  returns a network for it.
\<close>

theorem constructor_fails_fast_counterexample:
  "inputSize empty_config \<le> 0 \<and> hiddenLayers empty_config = []
   \<and> \<not> isl (NeuralNetwork_new empty_config (const_source (1 / 2)))"
  by (simp add: empty_config_def example_config_def NeuralNetwork_new_def new_Layer_def
      Let_def)

subsection \<open>Snapshots\<close>

lemma map_upt_shift: "map f [Suc 0..<Suc n] = map (\<lambda>j. f (Suc j)) [0..<n]"
  by (induction n) auto

lemma load_layers_all_ok:
  "\<forall>j<length ls. layer_check (i + j) s (ls ! j) = None \<Longrightarrow>
   load_layers i s ls = (None, map (\<lambda>j. loaded (i + j) s (ls ! j)) [0..<length ls])"
proof (induction ls arbitrary: i)
  case Nil
  then show ?case by simp
next
  case (Cons l ls)
  have h: "layer_check i s l = None" using Cons.prems by force
  have "\<forall>j<length ls. layer_check (Suc i + j) s (ls ! j) = None"
    using Cons.prems by force
  then have "load_layers (Suc i) s ls
             = (None, map (\<lambda>j. loaded (Suc i + j) s (ls ! j)) [0..<length ls])"
    by (rule Cons.IH)
  then show ?case
    using h by (simp add: upt_conv_Cons map_upt_shift del: upt_Suc)
qed

lemma load_layers_first_fail:
  "k < length ls \<Longrightarrow> \<forall>j<k. layer_check (i + j) s (ls ! j) = None \<Longrightarrow>
   layer_check (i + k) s (ls ! k) = Some e \<Longrightarrow>
   load_layers i s ls = (Some e, map (\<lambda>j. loaded (i + j) s (ls ! j)) [0..<k] @ drop k ls)"
proof (induction ls arbitrary: i k)
  case Nil
  then show ?case by simp
next
  case (Cons l ls)
  show ?case
  proof (cases k)
    case 0
    then show ?thesis using Cons.prems by simp
  next
    case (Suc k')
    have h: "layer_check i s l = None" using Cons.prems(2) Suc by force
    have a: "k' < length ls" using Cons.prems(1) Suc by simp
    have b: "\<forall>j<k'. layer_check (Suc i + j) s (ls ! j) = None"
      using Cons.prems(2) Suc by force
    have c: "layer_check (Suc i + k') s (ls ! k') = Some e"
      using Cons.prems(3) Suc by simp
    have "load_layers (Suc i) s ls
          = (Some e, map (\<lambda>j. loaded (Suc i + j) s (ls ! j)) [0..<k'] @ drop k' ls)"
      by (rule Cons.IH [OF a b c])
    then show ?thesis
      using h Suc by (simp add: upt_conv_Cons map_upt_shift del: upt_Suc)
  qed
qed

lemma layer_check_dims:
  "k < length (snap_weights s) \<Longrightarrow> matrix_dims (snap_weights s ! k) \<noteq> matrix_dims (weights l)
   \<Longrightarrow> layer_check k s l \<noteq> None"
  by (auto simp: layer_check_def matrix_dims_def Let_def split: list.splits)

lemma first_failing_layer:
  fixes k n :: nat
  assumes "k < n" and "f k \<noteq> (None :: error option)"
  shows "\<exists>j e. j \<le> k \<and> (\<forall>i<j. f i = None) \<and> f j = Some e"
proof -
  define j where "j = (LEAST i. f i \<noteq> None)"
  have "f j \<noteq> None"
    unfolding j_def using assms(2) LeastI [of "\<lambda>i. f i \<noteq> None" k] by simp
  moreover have "j \<le> k"
    unfolding j_def using assms(2) Least_le [of "\<lambda>i. f i \<noteq> None" k] by simp
  moreover have "\<forall>i<j. f i = None"
    unfolding j_def using not_less_Least [of _ "\<lambda>i. f i \<noteq> None"] by blast
  ultimately show ?thesis by auto
qed

text \<open>
  C5, as amended: a snapshot with a layer (of the trunk or the policy head) whose weight
  matrix differs from the network's in its number of rows or in the length of its first
  row makes \<open>loadSnapshot\<close> throw, at the first layer \<open>j\<close> that fails a check. The load
  is not undone: when it throws, the training counter and every layer before \<open>j\<close>, which
  had passed their checks, hold the snapshot's data; layer \<open>j\<close>, the later layers, the
  value head and the learning rate are as before the call.
\<close>

theorem loadSnapshot_mismatch_throws_partial:
  assumes "k < length (layers nn)" and "k < length (snap_weights snapshot)"
    and "matrix_dims (snap_weights snapshot ! k) \<noteq> matrix_dims (weights (layers nn ! k))"
  shows "\<exists>j e. j \<le> k
           \<and> (\<forall>i<j. layer_check i snapshot (layers nn ! i) = None)
           \<and> layer_check j snapshot (layers nn ! j) = Some e
           \<and> loadSnapshot snapshot nn
             = (Some e,
                nn\<lparr>trainingCount := snap_trainingCount snapshot,
                   layers := map (\<lambda>i. loaded i snapshot (layers nn ! i)) [0..<j]
                             @ drop j (layers nn)\<rparr>)"
proof -
  have "layer_check k snapshot (layers nn ! k) \<noteq> None"
    using assms(2,3) by (rule layer_check_dims)
  then obtain j e where j: "j \<le> k" "\<forall>i<j. layer_check i snapshot (layers nn ! i) = None"
      "layer_check j snapshot (layers nn ! j) = Some e"
    using first_failing_layer [OF assms(1), of "\<lambda>i. layer_check i snapshot (layers nn ! i)"]
    by blast
  have "j < length (layers nn)" using j(1) assms(1) by simp
  then have "load_layers 0 snapshot (layers nn)
        = (Some e, map (\<lambda>i. loaded (0 + i) snapshot (layers nn ! i)) [0..<j] @ drop j (layers nn))"
    using j(2,3) by (intro load_layers_first_fail) auto
  then have "loadSnapshot snapshot nn
             = (Some e,
                nn\<lparr>trainingCount := snap_trainingCount snapshot,
                   layers := map (\<lambda>i. loaded i snapshot (layers nn ! i)) [0..<j]
                             @ drop j (layers nn)\<rparr>)"
    by (simp add: loadSnapshot_def Let_def)
  then show ?thesis using j by blast
qed


theorem loadSnapshot_mismatch_throws_partial_witness:
  "matrix_dims (snap_weights misfit_snapshot ! 1) = (3, Some 9)
   \<and> matrix_dims (weights (layers zero_network ! 1)) = (2, Some 9)
   \<and> (\<exists>j e. j \<le> 1
           \<and> (\<forall>i<j. layer_check i misfit_snapshot (layers zero_network ! i) = None)
           \<and> layer_check j misfit_snapshot (layers zero_network ! j) = Some e
           \<and> loadSnapshot misfit_snapshot zero_network
             = (Some e,
                zero_network\<lparr>trainingCount := snap_trainingCount misfit_snapshot,
                   layers := map (\<lambda>i. loaded i misfit_snapshot (layers zero_network ! i)) [0..<j]
                             @ drop j (layers zero_network)\<rparr>))"
proof -
  have d: "matrix_dims (snap_weights misfit_snapshot ! 1) = (3, Some 9)"
    "matrix_dims (weights (layers zero_network ! 1)) = (2, Some 9)"
    by (simp_all add: misfit_snapshot_def zero_network_def zero_layer_def matrix_dims_def
        eval_nat_numeral)
  have l: "1 < length (layers zero_network)" "1 < length (snap_weights misfit_snapshot)"
    by (simp_all add: misfit_snapshot_def zero_network_def)
  have "matrix_dims (snap_weights misfit_snapshot ! 1)
        \<noteq> matrix_dims (weights (layers zero_network ! 1))"
    using d by simp
  from loadSnapshot_mismatch_throws_partial [OF l this] d show ?thesis by simp
qed

text \<open>
  C5 as stated fails in its second half: \<open>misfit_snapshot\<close> fits \<open>zero_network\<close> in layer 0
  and not in layer 1; the load throws at layer 1, and layer 0, already validated, holds
  the snapshot's weights and no longer its own, as does the training counter.
\<close>

theorem loadSnapshot_unmodified_counterexample:
  "fst (loadSnapshot misfit_snapshot zero_network) = Some (SnapshotShapeMismatch 1)
   \<and> weights (layers zero_network ! 0) = replicate 10 [0, 0]
   \<and> weights (layers (snd (loadSnapshot misfit_snapshot zero_network)) ! 0)
     = replicate 10 [1, 1]
   \<and> trainingCount zero_network = 0
   \<and> trainingCount (snd (loadSnapshot misfit_snapshot zero_network)) = 7"
  by (simp add: loadSnapshot_def misfit_snapshot_def zero_network_def zero_layer_def
      layer_check_def loaded_def json_copy_def Let_def eval_nat_numeral)


subsection \<open>What forward reads\<close>

lemma affine_unit_cong:
  "weights l = weights l' \<Longrightarrow> biases l = biases l' \<Longrightarrow> affine_unit l act = affine_unit l' act"
  by (rule ext) (simp add: affine_unit_def)

lemma layer_outputs_cong:
  "weights l = weights l' \<Longrightarrow> biases l = biases l' \<Longrightarrow> layer_outputs l act = layer_outputs l' act"
  by (simp add: layer_outputs_def affine_unit_cong [of l l'] cong: list.case_cong)

lemma dropout_mask_inference:
  "\<not> isTraining nn \<Longrightarrow> generateDropoutMask nn n r = (replicate n 1, r)"
  by (simp add: generateDropoutMask_def)

lemma forward_trunk_cong:
  assumes "map weights ls = map weights ls'" and "map biases ls = map biases ls'"
    and "\<not> isTraining A" and "\<not> isTraining B"
  shows "map_sum id (\<lambda>(ls, ms, act, r). (ms, act, r)) (forward_trunk A ls act r)
         = map_sum id (\<lambda>(ls, ms, act, r). (ms, act, r)) (forward_trunk B ls' act r)"
  using assms
proof (induction ls arbitrary: ls' act r)
  case Nil
  then show ?case by simp
next
  case (Cons l ls)
  then obtain l' ls2 where ls': "ls' = l' # ls2" by (cases ls') auto
  have w: "weights l = weights l'" "biases l = biases l'"
    and rest: "map weights ls = map weights ls2" "map biases ls = map biases ls2"
    using Cons.prems ls' by auto
  have lo: "layer_outputs l act = layer_outputs l' act" using w by (rule layer_outputs_cong)
  show ?case
  proof (cases "layer_outputs l' act")
    case (Inl e)
    then show ?thesis using lo ls' by simp
  next
    case (Inr units)
    let ?d = "map (\<lambda>(v, m). v * m) (zip (map relu units) (replicate (length units) 1))"
    have ih: "map_sum id (\<lambda>(ls, ms, act, r). (ms, act, r)) (forward_trunk A ls ?d r)
          = map_sum id (\<lambda>(ls, ms, act, r). (ms, act, r)) (forward_trunk B ls2 ?d r)"
      using Cons.IH [OF rest Cons.prems(3,4)] .
    show ?thesis
      using Inr lo ls' ih Cons.prems(3,4)
      by (auto simp: Let_def dropout_mask_inference split: sum.splits prod.splits)
  qed
qed

lemma forward_cong:
  assumes "map weights (layers A) = map weights (layers B)"
    and "map biases (layers A) = map biases (layers B)"
    and "weights (valueHead A) = weights (valueHead B)"
    and "biases (valueHead A) = biases (valueHead B)"
    and "\<not> isTraining A" and "\<not> isTraining B"
  shows "map_sum id fst (forward A r input msk) = map_sum id fst (forward B r input msk)"
proof (cases "layers A = []")
  case True
  then have "layers B = []" using assms(1) by auto
  then show ?thesis using True by (simp add: forward_def)
next
  case False
  then have nb: "layers B \<noteq> []" using assms(1) by auto
  have bl: "map weights (butlast (layers A)) = map weights (butlast (layers B))"
       "map biases (butlast (layers A)) = map biases (butlast (layers B))"
    using assms(1,2) by (simp_all add: map_butlast)
  have la: "weights (last (layers A)) = weights (last (layers B))"
       "biases (last (layers A)) = biases (last (layers B))"
    using assms(1,2) False nb by (metis last_map)+
  have t: "map_sum id (\<lambda>(ls, ms, act, r). (ms, act, r)) (forward_trunk A (butlast (layers A)) input r)
         = map_sum id (\<lambda>(ls, ms, act, r). (ms, act, r)) (forward_trunk B (butlast (layers B)) input r)"
    by (rule forward_trunk_cong [OF bl assms(5,6)])
  have lo: "\<And>act. layer_outputs (last (layers A)) act = layer_outputs (last (layers B)) act"
    using la by (rule layer_outputs_cong)
  have vo: "\<And>act. affine_unit (valueHead A) act = affine_unit (valueHead B) act"
    using assms(3,4) by (rule affine_unit_cong)
  show ?thesis
    using False nb t lo vo
    by (auto simp: forward_def Let_def split: sum.splits prod.splits)
qed

subsection \<open>Shapes are preserved\<close>

lemma forward_trunk_params:
  "forward_trunk nn ls act r = Inr (ls', ms, act', r') \<Longrightarrow>
   map weights ls' = map weights ls \<and> map biases ls' = map biases ls"
proof (induction ls arbitrary: act r ls' ms act' r')
  case Nil
  then show ?case by simp
next
  case (Cons l ls)
  then show ?case
    by (fastforce simp: Let_def split: sum.splits prod.splits)
qed

lemma forward_params:
  assumes "forward nn r input msk = Inr (out, nn', r')"
  shows "map weights (layers nn') = map weights (layers nn)"
    and "map biases (layers nn') = map biases (layers nn)"
    and "weights (valueHead nn') = weights (valueHead nn)"
    and "biases (valueHead nn') = biases (valueHead nn)"
    and "isTraining nn' = isTraining nn"
    and "config nn' = config nn"
proof -
  from assms have ne: "layers nn \<noteq> []" by (auto simp: forward_def split: if_splits)
  from assms obtain trunk masks activation policy v where
    t: "forward_trunk nn (butlast (layers nn)) input r = Inr (trunk, masks, activation, r')"
    and nn': "nn' = nn\<lparr>layers := trunk @ [(last (layers nn))\<lparr>inputActivation := activation,
                                                    outputActivation := policy\<rparr>],
              valueHead := (valueHead nn)\<lparr>inputActivation := activation,
                                          outputActivation := [v]\<rparr>,
              lastHiddenActivation := activation, dropoutMasks := masks\<rparr>"
    using ne by (auto simp: forward_def Let_def split: sum.splits prod.splits)
  have p: "map weights trunk = map weights (butlast (layers nn))"
          "map biases trunk = map biases (butlast (layers nn))"
    using forward_trunk_params [OF t] by auto
  have "map weights (layers nn') = map weights (butlast (layers nn) @ [last (layers nn)])"
    using p(1) by (simp add: nn')
  then show "map weights (layers nn') = map weights (layers nn)"
    using ne by (metis append_butlast_last_id)
  have "map biases (layers nn') = map biases (butlast (layers nn) @ [last (layers nn)])"
    using p(2) by (simp add: nn')
  then show "map biases (layers nn') = map biases (layers nn)"
    using ne by (metis append_butlast_last_id)
  show "weights (valueHead nn') = weights (valueHead nn)" by (simp add: nn')
  show "biases (valueHead nn') = biases (valueHead nn)" by (simp add: nn')
  show "isTraining nn' = isTraining nn" by (simp add: nn')
  show "config nn' = config nn" by (simp add: nn')
qed

lemma update_weights_shape:
  "update_weights nn d p w = Inr w' \<Longrightarrow> map length w' = map length w"
  by (auto simp: update_weights_def intro!: nth_equalityI split: if_splits)

lemma update_layer_shape:
  "update_layer nn d p l = Inr l' \<Longrightarrow> map length (weights l') = map length (weights l)"
  by (auto simp: update_layer_def dest: update_weights_shape split: sum.splits)

lemma backward_trunk_shape:
  "backward_trunk nn ls sd = Inr ls' \<Longrightarrow>
   map (\<lambda>l. map length (weights l)) ls' = map (\<lambda>l. map length (weights l)) ls"
proof (induction ls arbitrary: sd ls')
  case Nil
  then show ?case by simp
next
  case (Cons l ls)
  then show ?case
    by (fastforce simp: Let_def dest: update_layer_shape split: sum.splits if_splits)
qed

lemma backward_shape:
  assumes "backward nn pd vd = Inr nn'"
  shows "row_lengths nn' = row_lengths nn"
    and "isTraining nn' = isTraining nn"
    and "config nn' = config nn"
proof -
  from assms have ne: "layers nn \<noteq> []" by (auto simp: backward_def split: if_splits)
  from assms obtain pl vh trunk' sd where
    pl: "update_layer nn pd (lastHiddenActivation nn) (last (layers nn)) = Inr pl"
    and tr: "backward_trunk nn (rev (butlast (layers nn))) sd = Inr trunk'"
    and nn': "nn' = nn\<lparr>layers := rev trunk' @ [pl], valueHead := vh\<rparr>"
    using ne by (auto simp: backward_def Let_def split: sum.splits list.splits)
  have "map (\<lambda>l. map length (weights l)) (rev trunk')
        = map (\<lambda>l. map length (weights l)) (butlast (layers nn))"
    using backward_trunk_shape [OF tr] by (simp add: rev_map [symmetric])
  moreover have "map length (weights pl) = map length (weights (last (layers nn)))"
    using pl by (rule update_layer_shape)
  ultimately have "row_lengths nn'
        = map (\<lambda>l. map length (weights l)) (butlast (layers nn) @ [last (layers nn)])"
    by (simp add: row_lengths_def nn')
  then show "row_lengths nn' = row_lengths nn"
    using ne by (metis append_butlast_last_id row_lengths_def)
  show "isTraining nn' = isTraining nn" by (simp add: nn')
  show "config nn' = config nn" by (simp add: nn')
qed

lemma forward_shape:
  assumes "forward nn r input msk = Inr (out, nn', r')"
  shows "row_lengths nn' = row_lengths nn"
proof -
  have "map (\<lambda>l. map length (weights l)) (layers nn')
        = map (map length) (map weights (layers nn'))" by simp
  also have "\<dots> = map (map length) (map weights (layers nn))"
    using forward_params(1) [OF assms] by simp
  finally show ?thesis by (simp add: row_lengths_def)
qed

lemma train_loop_shape:
  "train_loop nn r exs a w = Inr (a', w', nn', r') \<Longrightarrow>
   row_lengths nn' = row_lengths nn \<and> isTraining nn' = isTraining nn \<and> config nn' = config nn"
proof (induction exs arbitrary: nn r a w)
  case Nil
  then show ?case by simp
next
  case (Cons ex exs)
  from Cons.prems obtain out nn1 r1 nn2 a2 w2 where
    f: "forward nn r (ex_input ex) (Some (ex_mask ex)) = Inr (out, nn1, r1)"
    and b: "backward nn1 (map (\<lambda>i. (out_policy out ! i - ex_target ex ! i) * ex_weight ex)
                             [0..<length (out_policy out)])
              [2 * (out_value out - ex_value ex) * nn_valueLossWeight nn1 * ex_weight ex
               * (1 - out_value out * out_value out)] = Inr nn2"
    and t: "train_loop nn2 r1 exs a2 w2 = Inr (a', w', nn', r')"
    by (auto simp: Let_def split: sum.splits prod.splits if_splits)
  show ?case
    using Cons.IH [OF t] backward_shape [OF b] forward_shape [OF f] forward_params(5,6) [OF f]
    by simp
qed

lemma train_shape:
  assumes "train nn r exs = Inr (loss, nn', r')"
  shows "row_lengths nn' = row_lengths nn" and "\<not> isTraining nn'"
    and "inputSize (config nn') = inputSize (config nn)"
    and "hiddenLayers (config nn') = hiddenLayers (config nn)"
    and "outputSize (config nn') = outputSize (config nn)"
proof -
  from assms obtain a w nn1 where
    t: "train_loop (setTraining True nn) r exs 0 0 = Inr (a, w, nn1, r')"
    and nn': "nn' = (setTraining False nn1)\<lparr>trainingCount :=
                 trainingCount (setTraining False nn1) + int (length exs)\<rparr>"
    by (auto simp: train_def Let_def split: sum.splits prod.splits)
  note s = train_loop_shape [OF t]
  show "row_lengths nn' = row_lengths nn"
    using s by (simp add: nn' row_lengths_def setTraining_def)
  show "\<not> isTraining nn'" by (simp add: nn' setTraining_def)
  show "inputSize (config nn') = inputSize (config nn)"
    "hiddenLayers (config nn') = hiddenLayers (config nn)"
    "outputSize (config nn') = outputSize (config nn)"
    using s by (simp_all add: nn' setTraining_def)
qed

lemma new_Layer_shape:
  "new_Layer a b r = Inr (l, r') \<Longrightarrow> map length (weights l) = replicate (nat a) (nat b)"
  by (auto simp: new_Layer_def Let_def map_replicate_const split: if_splits
           intro!: nth_equalityI)

lemma build_trunk_shape:
  "build_trunk xs r = Inr (ls, r') \<Longrightarrow>
   map (\<lambda>l. map length (weights l)) ls
   = map (\<lambda>(a, b). replicate (nat a) (nat b)) (zip xs (tl xs))"
proof (induction xs r arbitrary: ls r' rule: build_trunk.induct)
  case (1 a b rest r)
  then show ?case
    by (auto split: sum.splits prod.splits dest: new_Layer_shape)
qed auto

text \<open>The row lengths of a freshly constructed network, from its sizes alone.\<close>

lemma constructor_shape:
  assumes "NeuralNetwork_new cfg r = Inr (nn, r')"
  shows "row_lengths nn
         = map (\<lambda>(a, b). replicate (nat a) (nat b))
               (zip (inputSize cfg # hiddenLayers cfg) (hiddenLayers cfg))
           @ [replicate (nat (last (inputSize cfg # hiddenLayers cfg))) (nat (outputSize cfg))]"
    and "\<not> isTraining nn" and "config nn = cfg"
proof -
  let ?hs = "inputSize cfg # hiddenLayers cfg"
  from assms obtain trunk r1 pl r2 vh where
    t: "build_trunk ?hs r = Inr (trunk, r1)"
    and p: "new_Layer (last ?hs) (outputSize cfg) r1 = Inr (pl, r2)"
    and l: "layers nn = trunk @ [pl]" and tr: "\<not> isTraining nn" and c: "config nn = cfg"
    by (auto simp: NeuralNetwork_new_def Let_def butlast_append split: sum.splits prod.splits)
  show "\<not> isTraining nn" by (rule tr)
  show "config nn = cfg" by (rule c)
  show "row_lengths nn
         = map (\<lambda>(a, b). replicate (nat a) (nat b)) (zip ?hs (hiddenLayers cfg))
           @ [replicate (nat (last ?hs)) (nat (outputSize cfg))]"
    using build_trunk_shape [OF t] new_Layer_shape [OF p] by (simp add: row_lengths_def l)
qed

lemma trained_invariant:
  assumes "trained cfg nn"
  shows "row_lengths nn
         = map (\<lambda>(a, b). replicate (nat a) (nat b))
               (zip (inputSize cfg # hiddenLayers cfg) (hiddenLayers cfg))
           @ [replicate (nat (last (inputSize cfg # hiddenLayers cfg))) (nat (outputSize cfg))]
         \<and> \<not> isTraining nn
         \<and> inputSize (config nn) = inputSize cfg
         \<and> hiddenLayers (config nn) = hiddenLayers cfg
         \<and> outputSize (config nn) = outputSize cfg"
  using assms
proof (induction rule: trained.induct)
  case (constructed r nn r')
  then show ?case using constructor_shape [OF constructed] by simp
next
  case (after_train nn r examples loss nn' r')
  then show ?case using train_shape [OF after_train(2)] by simp
next
  case (after_forward nn r input msk out nn' r')
  then show ?case
    using forward_shape [OF after_forward(2)] forward_params(5,6) [OF after_forward(2)] by simp
next
  case (after_setLearningRate nn lr)
  then show ?case by (simp add: setLearningRate_def row_lengths_def)
next
  case (after_getSnapshot nn)
  then show ?case by (simp add: getSnapshot_def row_lengths_def Let_def)
qed

lemma load_matching:
  assumes rl: "row_lengths N = row_lengths M" and ne: "\<forall>l\<in>set (layers M). weights l \<noteq> []"
  shows "fst (loadSnapshot (fst (getSnapshot N)) M) = None"
    and "map weights (layers (snd (loadSnapshot (fst (getSnapshot N)) M))) = map weights (layers N)"
    and "map biases (layers (snd (loadSnapshot (fst (getSnapshot N)) M))) = map biases (layers N)"
    and "weights (valueHead (snd (loadSnapshot (fst (getSnapshot N)) M))) = weights (valueHead N)"
    and "biases (valueHead (snd (loadSnapshot (fst (getSnapshot N)) M))) = biases (valueHead N)"
    and "isTraining (snd (loadSnapshot (fst (getSnapshot N)) M)) = isTraining M"
proof -
  let ?s = "fst (getSnapshot N)"
  let ?n = "length (layers M)"
  have len: "length (layers N) = ?n"
    using rl by (metis length_map row_lengths_def)
  have sw: "snap_weights ?s = map weights (layers N)" and sb: "snap_biases ?s = map biases (layers N)"
    and vw: "valueHeadWeights ?s = Some (weights (valueHead N))"
    and vb: "valueHeadBiases ?s = Some (biases (valueHead N))"
    by (simp_all add: getSnapshot_def Let_def)
  have chk: "layer_check (0 + j) ?s (layers M ! j) = None" if j: "j < ?n" for j
  proof -
    have "row_lengths N ! j = row_lengths M ! j" using rl by simp
    then have e: "map length (weights (layers N ! j)) = map length (weights (layers M ! j))"
      using j len by (simp add: row_lengths_def)
    have "weights (layers M ! j) \<noteq> []" using ne j by simp
    then obtain row0 rows where m: "weights (layers M ! j) = row0 # rows"
      by (cases "weights (layers M ! j)") auto
    then obtain g gs where n: "weights (layers N ! j) = g # gs" and "length g = length row0"
      and "length gs = length rows"
      using e by (cases "weights (layers N ! j)") (auto dest: map_eq_imp_length_eq)
    then show ?thesis
      using j len m by (simp add: layer_check_def sw sb Let_def)
  qed
  have ll: "load_layers 0 ?s (layers M)
            = (None, map (\<lambda>j. loaded (0 + j) ?s (layers M ! j)) [0..<?n])"
    using chk by (intro load_layers_all_ok) blast
  let ?ls = "map (\<lambda>j. loaded (0 + j) ?s (layers M ! j)) [0..<?n]"
  have res: "loadSnapshot ?s M
      = (None, M\<lparr>trainingCount := snap_trainingCount ?s, layers := ?ls,
                 valueHead := (valueHead M)\<lparr>weights := weights (valueHead N),
                                             biases := biases (valueHead N)\<rparr>,
                 currentLearningRate := learningRate (config M)\<rparr>)"
    by (simp add: loadSnapshot_def ll vw vb Let_def json_copy_def)
  show "fst (loadSnapshot ?s M) = None" by (simp add: res)
  have "map weights ?ls = map (\<lambda>j. weights (layers N ! j)) [0..<length (layers N)]"
    using len by (simp add: loaded_def json_copy_def sw)
  also have "\<dots> = map weights (map ((!) (layers N)) [0..<length (layers N)])" by simp
  also have "\<dots> = map weights (layers N)" by (simp only: map_nth)
  finally show "map weights (layers (snd (loadSnapshot ?s M))) = map weights (layers N)"
    by (simp add: res)
  have "map biases ?ls = map (\<lambda>j. biases (layers N ! j)) [0..<length (layers N)]"
    using len by (simp add: loaded_def json_copy_def sb)
  also have "\<dots> = map biases (map ((!) (layers N)) [0..<length (layers N)])" by simp
  also have "\<dots> = map biases (layers N)" by (simp only: map_nth)
  finally show "map biases (layers (snd (loadSnapshot ?s M))) = map biases (layers N)"
    by (simp add: res)
  show "weights (valueHead (snd (loadSnapshot ?s M))) = weights (valueHead N)" by (simp add: res)
  show "biases (valueHead (snd (loadSnapshot ?s M))) = biases (valueHead N)" by (simp add: res)
  show "isTraining (snd (loadSnapshot ?s M)) = isTraining M" by (simp add: res)
qed

lemma nonempty_matrices:
  assumes "row_lengths M
         = map (\<lambda>(a, b). replicate (nat a) (nat b)) (zip (x # hs) hs)
           @ [replicate (nat (last (x # hs))) (nat out)]"
    and "\<forall>s\<in>set (x # hs). 0 < s"
  shows "\<forall>l\<in>set (layers M). weights l \<noteq> []"
proof
  fix l assume "l \<in> set (layers M)"
  then have "map length (weights l) \<in> set (row_lengths M)" by (auto simp: row_lengths_def)
  then have "map length (weights l) \<in> (\<lambda>(a, b). replicate (nat a) (nat b)) ` set (zip (x # hs) hs)
             \<or> map length (weights l) = replicate (nat (last (x # hs))) (nat out)"
    unfolding assms(1) by auto
  then show "weights l \<noteq> []"
  proof
    assume "map length (weights l) \<in> (\<lambda>(a, b). replicate (nat a) (nat b)) ` set (zip (x # hs) hs)"
    then obtain a b where ab: "(a, b) \<in> set (zip (x # hs) hs)"
      and e: "map length (weights l) = replicate (nat a) (nat b)" by auto
    have "a \<in> set (x # hs)" using ab by (rule set_zip_leftD)
    then have "0 < a" using assms(2) by blast
    then show ?thesis using e by auto
  next
    assume e: "map length (weights l) = replicate (nat (last (x # hs))) (nat out)"
    have "last (x # hs) \<in> set (x # hs)" by (rule last_in_set) simp
    then have "0 < last (x # hs)" using assms(2) by blast
    then show ?thesis using e by auto
  qed
qed

text \<open>
  C4: for every network \<open>N\<close> obtained from a configuration with positive sizes by
  construction and training, and every network \<open>M\<close> freshly constructed from the
  configuration of \<open>N\<close>'s snapshot, \<open>M.loadSnapshot(N.getSnapshot())\<close> returns normally, and
  afterwards \<open>M.forward(input, mask)\<close> has the outcome of \<open>N.forward(input, mask)\<close>: the
  same policy and the same value (or the same error), for every input and mask. Both
  networks are in inference mode.
\<close>

theorem snapshot_round_trip:
  assumes tr: "trained cfg N"
    and pos: "\<forall>s\<in>set (inputSize cfg # hiddenLayers cfg). 0 < s"
    and new: "NeuralNetwork_new (snap_config (fst (getSnapshot N))) r0 = Inr (M, r1)"
  shows "fst (loadSnapshot (fst (getSnapshot N)) M) = None
         \<and> map_sum id fst (forward (snd (loadSnapshot (fst (getSnapshot N)) M)) r input msk)
           = map_sum id fst (forward N r input msk)"
proof -
  let ?c = "snap_config (fst (getSnapshot N))"
  note inv = trained_invariant [OF tr]
  have c: "inputSize ?c = inputSize cfg" "hiddenLayers ?c = hiddenLayers cfg"
    "outputSize ?c = outputSize cfg"
    using inv by (simp_all add: getSnapshot_def Let_def)
  have rm: "row_lengths M
         = map (\<lambda>(a, b). replicate (nat a) (nat b))
               (zip (inputSize cfg # hiddenLayers cfg) (hiddenLayers cfg))
           @ [replicate (nat (last (inputSize cfg # hiddenLayers cfg))) (nat (outputSize cfg))]"
    using constructor_shape(1) [OF new] by (simp only: c)
  have rl: "row_lengths N = row_lengths M" using inv rm by simp
  have ne: "\<forall>l\<in>set (layers M). weights l \<noteq> []"
    using rm pos by (rule nonempty_matrices)
  note lm = load_matching [OF rl ne]
  have "\<not> isTraining (snd (loadSnapshot (fst (getSnapshot N)) M))"
    using lm(6) constructor_shape(2) [OF new] by simp
  moreover have "\<not> isTraining N" using inv by simp
  ultimately have "map_sum id fst (forward (snd (loadSnapshot (fst (getSnapshot N)) M)) r input msk)
           = map_sum id fst (forward N r input msk)"
    using lm(2-5) by (intro forward_cong)
  then show ?thesis using lm(1) by simp
qed

lemma new_zero:
  "NeuralNetwork_new example_config (const_source (1 / 2)) = Inr (zero_network, const_source (1 / 2))"
  by (simp add: NeuralNetwork_new_def example_config_def new_Layer_def Let_def const_source_def
      advance_def zero_network_def zero_layer_def map_replicate_const eval_nat_numeral)

lemma train_zero_ok: "\<not> isl (train zero_network (const_source (1 / 2)) [opening_example])"
  by (simp add: train_def forward_def zero_network_def zero_layer_def layer_outputs_def
      affine_unit_def Let_def generateDropoutMask_def relu_def eval_nat_numeral
      opening_example_def setTraining_def softmax_def masked_def math_exp_def backward_def
      update_layer_def update_weights_def update_biases_def reluDerivative_def)

lemma trained_network_biases:
  "biases (layers trained_network ! 1)
   = [- (1 / 900), - (1 / 900), - (1 / 900), - (1 / 900), 2 / 225,
      - (1 / 900), - (1 / 900), - (1 / 900), - (1 / 900)]"
  by (simp add: trained_network_def train_def forward_def zero_network_def zero_layer_def layer_outputs_def
      affine_unit_def Let_def generateDropoutMask_def relu_def eval_nat_numeral
      opening_example_def setTraining_def softmax_def masked_def math_exp_def backward_def
      update_layer_def update_weights_def update_biases_def reluDerivative_def
      gradient_term_def clipGradient_def decayed_def)

lemma trained_forward_ok:
  "\<not> isl (forward trained_network (const_source 0) (ex_input opening_example)
                   (Some (ex_mask opening_example)))"
  by (simp add: trained_network_def train_def forward_def zero_network_def zero_layer_def layer_outputs_def
      affine_unit_def Let_def generateDropoutMask_def relu_def eval_nat_numeral
      opening_example_def setTraining_def softmax_def masked_def math_exp_def backward_def
      update_layer_def update_weights_def update_biases_def reluDerivative_def
      gradient_term_def clipGradient_def decayed_def)

lemma trained_network_trained: "trained example_config trained_network"
proof -
  let ?t = "train zero_network (const_source (1 / 2)) [opening_example]"
  have "?t = Inr (projr ?t)" using train_zero_ok by simp
  then have "?t = Inr (fst (projr ?t), trained_network, snd (snd (projr ?t)))"
    by (simp add: trained_network_def)
  then show ?thesis using constructed [OF new_zero] by (rule after_train [rotated])
qed

theorem snapshot_round_trip_witness:
  "fst (loadSnapshot (fst (getSnapshot trained_network)) fresh_network) = None
   \<and> map_sum id fst (forward (snd (loadSnapshot (fst (getSnapshot trained_network)) fresh_network))
                             (const_source 0) (ex_input opening_example)
                             (Some (ex_mask opening_example)))
     = map_sum id fst (forward trained_network (const_source 0) (ex_input opening_example)
                               (Some (ex_mask opening_example)))
   \<and> \<not> isl (forward trained_network (const_source 0) (ex_input opening_example)
                     (Some (ex_mask opening_example)))"
proof -
  let ?c = "snap_config (fst (getSnapshot trained_network))"
  let ?n = "NeuralNetwork_new ?c (const_source 0)"
  note inv = trained_invariant [OF trained_network_trained]
  have c: "inputSize ?c = 10" "hiddenLayers ?c = [2]" "outputSize ?c = 9"
    using inv by (simp_all add: getSnapshot_def Let_def example_config_def)
  have "\<not> isl ?n" by (rule constructor_in_range) (simp add: c)
  then have "?n = Inr (projr ?n)" by simp
  then have new: "?n = Inr (fresh_network, snd (projr ?n))" by (simp add: fresh_network_def)
  have pos: "\<forall>s\<in>set (inputSize example_config # hiddenLayers example_config). 0 < s"
    by (simp add: example_config_def)
  show ?thesis
    using snapshot_round_trip [OF trained_network_trained pos new] trained_forward_ok by simp
qed

subsection \<open>The gradient step\<close>

lemma clipGradient_bound: "0 \<le> nn_gradientClip nn \<Longrightarrow> \<bar>clipGradient nn g\<bar> \<le> nn_gradientClip nn"
  by (auto simp: clipGradient_def)

lemma gradient_term_bound:
  assumes "0 \<le> currentLearningRate nn" and "0 \<le> nn_gradientClip nn"
  shows "\<bar>gradient_term nn g\<bar> \<le> currentLearningRate nn * nn_gradientClip nn"
proof -
  have "\<bar>gradient_term nn g\<bar> = currentLearningRate nn * \<bar>clipGradient nn g\<bar>"
    using assms(1) by (simp add: gradient_term_def abs_mult)
  also have "\<dots> \<le> currentLearningRate nn * nn_gradientClip nn"
    using assms clipGradient_bound [OF assms(2)] by (intro mult_left_mono) auto
  finally show ?thesis .
qed

lemma update_weights_stepped:
  "update_weights nn d p w = Inr w' \<Longrightarrow> stepped nn w w'"
  by (auto simp: update_weights_def stepped_def split: if_splits)

lemma update_layer_stepped:
  "update_layer nn d p l = Inr l' \<Longrightarrow> stepped nn (weights l) (weights l')"
  by (auto simp: update_layer_def dest: update_weights_stepped split: sum.splits)

lemma backward_trunk_stepped:
  "backward_trunk nn ls sd = Inr ls' \<Longrightarrow>
   list_all2 (\<lambda>l l'. stepped nn (weights l) (weights l')) ls ls'"
proof (induction ls arbitrary: sd ls')
  case Nil
  then show ?case by simp
next
  case (Cons l ls)
  then show ?case
    by (fastforce simp: Let_def dest: update_layer_stepped split: sum.splits if_splits)
qed

lemma backward_stepped:
  assumes "backward nn pd vd = Inr nn'"
  shows "list_all2 (\<lambda>l l'. stepped nn (weights l) (weights l')) (layers nn) (layers nn')"
    and "stepped nn (weights (valueHead nn)) (weights (valueHead nn'))"
proof -
  let ?P = "\<lambda>l l'. stepped nn (weights l) (weights l')"
  from assms have ne: "layers nn \<noteq> []" by (auto simp: backward_def split: if_splits)
  from assms obtain pl vh trunk' sd v0 where
    pl: "update_layer nn pd (lastHiddenActivation nn) (last (layers nn)) = Inr pl"
    and vh: "update_layer nn [v0] (lastHiddenActivation nn) (valueHead nn) = Inr vh"
    and tr: "backward_trunk nn (rev (butlast (layers nn))) sd = Inr trunk'"
    and nn': "nn' = nn\<lparr>layers := rev trunk' @ [pl], valueHead := vh\<rparr>"
    using ne by (auto simp: backward_def Let_def split: sum.splits list.splits)
  have "list_all2 ?P (rev (butlast (layers nn))) trunk'"
    using tr by (rule backward_trunk_stepped)
  then have "list_all2 ?P (butlast (layers nn)) (rev trunk')"
    by (simp add: list_all2_rev1)
  moreover have "?P (last (layers nn)) pl" using pl by (rule update_layer_stepped)
  ultimately have "list_all2 ?P (butlast (layers nn) @ [last (layers nn)]) (rev trunk' @ [pl])"
    by (simp add: list_all2_appendI)
  then show "list_all2 ?P (layers nn) (layers nn')"
    using ne by (simp add: nn')
  show "stepped nn (weights (valueHead nn)) (weights (valueHead nn'))"
    using update_layer_stepped [OF vh] by (simp add: nn')
qed

text \<open>
  C7: in every \<open>backward\<close> step that returns, with a learning rate and a clip magnitude
  that are not negative, every weight of every layer (trunk, policy head, value head) is
  either left as it was or differs from its decayed old value, the weight-decay term
  \<open>w * (1 - lr * weightDecay)\<close>, by at most \<open>learningRate * clipMagnitude\<close>.
\<close>

theorem gradient_clip_bound:
  assumes "backward nn policyDelta valueDelta = Inr nn'"
    and "0 \<le> currentLearningRate nn" and "0 \<le> nn_gradientClip nn"
    and "l < length (layers nn) \<and> w = weights (layers nn ! l) \<and> w' = weights (layers nn' ! l)
         \<or> w = weights (valueHead nn) \<and> w' = weights (valueHead nn')"
    and "i < length w" and "j < length (w ! i)"
  shows "w' ! i ! j = w ! i ! j
         \<or> \<bar>w' ! i ! j - decayed nn (w ! i ! j)\<bar> \<le> currentLearningRate nn * nn_gradientClip nn"
proof -
  have "stepped nn w w'"
    using assms(4)
  proof
    assume a: "l < length (layers nn) \<and> w = weights (layers nn ! l) \<and> w' = weights (layers nn' ! l)"
    then show ?thesis
      using backward_stepped(1) [OF assms(1)] by (auto simp: list_all2_conv_all_nth)
  next
    assume "w = weights (valueHead nn) \<and> w' = weights (valueHead nn')"
    then show ?thesis using backward_stepped(2) [OF assms(1)] by simp
  qed
  then have "w' ! i ! j = w ! i ! j \<or> (\<exists>g. w' ! i ! j = decayed nn (w ! i ! j) - gradient_term nn g)"
    using assms(5,6) by (simp add: stepped_def)
  then show ?thesis
  proof
    assume "w' ! i ! j = w ! i ! j"
    then show ?thesis by simp
  next
    assume "\<exists>g. w' ! i ! j = decayed nn (w ! i ! j) - gradient_term nn g"
    then obtain g where "w' ! i ! j = decayed nn (w ! i ! j) - gradient_term nn g" by blast
    then have "\<bar>w' ! i ! j - decayed nn (w ! i ! j)\<bar> = \<bar>gradient_term nn g\<bar>" by simp
    then show ?thesis using gradient_term_bound [OF assms(2,3), of g] by simp
  qed
qed


lemma active_backward_ok:
  "\<not> isl (backward active_network [100, 0, 0, 0, 0, 0, 0, 0, 0] [0])"
  by (simp add: active_network_def forward_def zero_network_def zero_layer_def layer_outputs_def
      affine_unit_def Let_def generateDropoutMask_def relu_def opening_example_def
      softmax_def masked_def math_exp_def eval_nat_numeral
      backward_def update_layer_def update_weights_def update_biases_def reluDerivative_def)

lemma active_backward_weight:
  "weights (layers (projr (backward active_network [100, 0, 0, 0, 0, 0, 0, 0, 0] [0])) ! 1) ! 0 ! 0
   = - (1 / 20)"
  by (simp add: active_network_def forward_def zero_network_def zero_layer_def layer_outputs_def
      affine_unit_def Let_def generateDropoutMask_def relu_def opening_example_def
      softmax_def masked_def math_exp_def eval_nat_numeral
      backward_def update_layer_def update_weights_def update_biases_def reluDerivative_def
      decayed_def gradient_term_def clipGradient_def)

theorem gradient_clip_bound_witness:
  "\<not> isl (backward active_network [100, 0, 0, 0, 0, 0, 0, 0, 0] [0])
   \<and> weights (layers active_network ! 1) ! 0 ! 0 = 0
   \<and> weights (layers (projr (backward active_network [100, 0, 0, 0, 0, 0, 0, 0, 0] [0])) ! 1)
       ! 0 ! 0 = - (1 / 20)
   \<and> \<bar>weights (layers (projr (backward active_network [100, 0, 0, 0, 0, 0, 0, 0, 0] [0])) ! 1)
         ! 0 ! 0
       - decayed active_network (weights (layers active_network ! 1) ! 0 ! 0)\<bar>
     \<le> currentLearningRate active_network * nn_gradientClip active_network"
proof -
  let ?b = "backward active_network [100, 0, 0, 0, 0, 0, 0, 0, 0] [0]"
  have ok: "\<not> isl ?b" by (rule active_backward_ok)
  then have e: "?b = Inr (projr ?b)" by simp
  have a: "lastHiddenActivation active_network = [1, 1]"
    "layers active_network ! 1
     = (zero_layer 2 9)\<lparr>inputActivation := [1, 1], outputActivation := replicate 9 (1 / 9)\<rparr>"
    "currentLearningRate active_network = 1 / 100" "nn_gradientClip active_network = 5"
    "length (layers active_network) = 2"
    by (simp_all add: active_network_def forward_def zero_network_def zero_layer_def
        layer_outputs_def affine_unit_def Let_def generateDropoutMask_def relu_def
        opening_example_def softmax_def masked_def math_exp_def eval_nat_numeral)
  have w: "weights (layers active_network ! 1) = [replicate 9 0, replicate 9 0]"
    using a(2) by (simp add: zero_layer_def eval_nat_numeral)
  have w0: "weights (layers active_network ! 1) ! 0 ! 0 = 0"
    using w by simp
  have "weights (layers (projr ?b) ! 1) ! 0 ! 0 = weights (layers active_network ! 1) ! 0 ! 0
        \<or> \<bar>weights (layers (projr ?b) ! 1) ! 0 ! 0
            - decayed active_network (weights (layers active_network ! 1) ! 0 ! 0)\<bar>
          \<le> currentLearningRate active_network * nn_gradientClip active_network"
    using a w by (intro gradient_clip_bound [OF e, where l = 1]) simp_all
  then show ?thesis
    using ok w0 active_backward_weight by (simp add: decayed_def)
qed

section \<open>Properties of the oracle\<close>

declare negamax.simps [simp del] can_draw.simps [simp del] cannot_win.simps [simp del]

lemma cache_key_inject [simp]:
  "cache_key b t = cache_key b' t' \<longleftrightarrow> b = b' \<and> t = t'"
proof
  assume "cache_key b t = cache_key b' t'"
  then have "rev (cache_key b t) = rev (cache_key b' t')" by simp
  then show "b = b' \<and> t = t'"
    by (cases t; cases t') (auto simp: cache_key_def symbol_char_def)
qed simp

lemma negate_signs [simp]: "nonneg (negate s) = nonpos s" "nonpos (negate s) = nonneg s"
  by (cases s; simp)+

lemma max_signs:
  "nonneg (if score_gt a b then a else b) \<longleftrightarrow> nonneg a \<or> nonneg b"
  "nonpos (if score_gt a b then a else b) \<longleftrightarrow> nonpos a \<and> nonpos b"
  by (cases a; cases b; auto)+

lemma filled_le: "filled b \<le> 9"
proof -
  have "length (filter (\<lambda>i. \<not> isMoveValid b i) [0..<9]) \<le> length [0..<9]"
    by (rule length_filter_le)
  then show ?thesis by (simp add: filled_def)
qed

lemma isMoveValid_applyMove:
  assumes "isMoveValid b i"
  shows "isMoveValid (applyMove b i t) j \<longleftrightarrow> j \<noteq> i \<and> isMoveValid b j"
proof -
  from assms have i: "i < length b" "b ! i = CHR ''_''"
    by (auto simp: isMoveValid_def char_at_def split: if_splits)
  have len: "length (applyMove b i t) = length b"
    using i by (simp add: applyMove_def)
  have "applyMove b i t = b[i := symbol_char t]"
    using i by (simp add: applyMove_def upd_conv_take_nth_drop)
  moreover have "symbol_char t \<noteq> CHR ''_''" by (cases t) (simp_all add: symbol_char_def)
  ultimately show ?thesis
    using i by (auto simp: isMoveValid_def char_at_def nth_list_update)
qed

lemma filled_applyMove:
  assumes "isMoveValid b i" and "i < 9"
  shows "filled (applyMove b i t) = filled b + 1"
proof -
  have "filter (\<lambda>j. \<not> isMoveValid (applyMove b i t) j) [0..<9]
        = filter (\<lambda>j. j = i \<or> \<not> isMoveValid b j) [0..<9]"
    using isMoveValid_applyMove [OF assms(1)] by (intro filter_cong) auto
  moreover have "length (filter (\<lambda>j. j = i \<or> \<not> isMoveValid b j) xs)
        = length (filter (\<lambda>j. \<not> isMoveValid b j) xs) + (if i \<in> set xs then 1 else 0)"
    if "distinct xs" for xs
    using that assms(1) by (induction xs) auto
  ultimately show ?thesis using assms(2) by (simp add: filled_def)
qed

text \<open>The loop of \<open>negamax\<close> over a list of cells, as a fold.\<close>

lemma can_draw_unfold:
  "can_draw b t \<longleftrightarrow>
     computeWinner b = None \<and>
     (CHR ''_'' \<notin> set b \<or> (\<exists>i<9. isMoveValid b i \<and> cannot_win (applyMove b i t) (nextSymbol t)))"
  by (subst can_draw.simps) (auto simp: list_ex_iff)

lemma cannot_win_unfold:
  "cannot_win b t \<longleftrightarrow>
     computeWinner b \<noteq> None \<or> CHR ''_'' \<notin> set b
     \<or> (\<forall>i<9. isMoveValid b i \<longrightarrow> can_draw (applyMove b i t) (nextSymbol t))"
  by (subst cannot_win.simps) (auto simp: list_all_iff)

lemma negamax_fold_sound:
  assumes ih: "\<And>c i. isMoveValid b i \<Longrightarrow> i < 9 \<Longrightarrow> cache_sound c \<Longrightarrow>
             (case negamax c (applyMove b i t) (nextSymbol t) (d + 1) of
                (s, c') \<Rightarrow> sign_ok (applyMove b i t) (nextSymbol t) s \<and> cache_sound c')"
    and "cache_sound c0" and "set js \<subseteq> {0..<9}"
    and "nonneg best0 \<longleftrightarrow> P" and "nonpos best0 \<longleftrightarrow> Q"
  shows "case foldl (\<lambda>(best, c) i.
                      if \<not> isMoveValid b i then (best, c)
                      else (case negamax c (applyMove b i t) (nextSymbol t) (d + 1) of
                              (s, c') \<Rightarrow> (if score_gt (negate s) best then negate s else best, c')))
                    (best0, c0) js of
           (best, c) \<Rightarrow>
             cache_sound c
             \<and> (nonneg best \<longleftrightarrow>
                  P \<or> (\<exists>i\<in>set js. isMoveValid b i \<and> cannot_win (applyMove b i t) (nextSymbol t)))
             \<and> (nonpos best \<longleftrightarrow>
                  Q \<and> (\<forall>i\<in>set js. isMoveValid b i \<longrightarrow> can_draw (applyMove b i t) (nextSymbol t)))"
  using assms(2-)
proof (induction js arbitrary: best0 c0 P Q)
  case Nil
  then show ?case by simp
next
  case (Cons j js)
  show ?case
  proof (cases "isMoveValid b j")
    case False
    then show ?thesis using Cons.IH [OF Cons.prems(1) _ Cons.prems(3,4)] Cons.prems(2) by simp
  next
    case True
    have j9: "j < 9" using Cons.prems(2) by simp
    obtain s c' where n: "negamax c0 (applyMove b j t) (nextSymbol t) (d + 1) = (s, c')"
      by (cases "negamax c0 (applyMove b j t) (nextSymbol t) (d + 1)")
    have ok: "sign_ok (applyMove b j t) (nextSymbol t) s" and c': "cache_sound c'"
      using ih [OF True j9 Cons.prems(1)] n by auto
    let ?best = "if score_gt (negate s) best0 then negate s else best0"
    have p: "nonneg ?best \<longleftrightarrow> (P \<or> cannot_win (applyMove b j t) (nextSymbol t))"
      using ok Cons.prems(3) by (simp only: max_signs negate_signs sign_ok_def) blast
    have q: "nonpos ?best \<longleftrightarrow> (Q \<and> can_draw (applyMove b j t) (nextSymbol t))"
      using ok Cons.prems(4) by (simp only: max_signs negate_signs sign_ok_def) blast
    have js: "set js \<subseteq> {0..<9}" using Cons.prems(2) by simp
    show ?thesis
      using Cons.IH [OF c' js p q] True n by (auto simp del: nonneg.simps nonpos.simps)
  qed
qed

lemma negamax_sound:
  "cache_sound cache \<Longrightarrow> depth \<le> filled board \<Longrightarrow>
   (case negamax cache board turn depth of
      (v, cache') \<Rightarrow> sign_ok board turn v \<and> cache_sound cache')"
proof (induction cache board turn depth rule: negamax.induct)
  case (1 cache board turn depth)
  show ?case
  proof (cases "cache (cache_key board turn)")
    case (Some v)
    then show ?thesis
      using "1.prems"(1) by (subst negamax.simps) (simp add: cache_sound_def)
  next
    case None
    note miss = None
    show ?thesis
    proof (cases "terminalScore board depth")
      case (Some v)
      have d: "depth \<le> 9" using "1.prems"(2) filled_le [of board] by simp
      have "sign_ok board turn v"
        using Some d
        by (auto simp: terminalScore_def sign_ok_def can_draw_unfold [of board turn]
            cannot_win_unfold [of board turn] SCORE_WIN_def split: if_splits)
      then show ?thesis
        using miss Some "1.prems"(1)
        by (subst negamax.simps) (auto simp: cache_sound_def)
    next
      case None
      then have nt: "computeWinner board = None" "CHR ''_'' \<in> set board"
        by (auto simp: terminalScore_def split: if_splits)
      have ih: "\<And>c i. isMoveValid board i \<Longrightarrow> i < 9 \<Longrightarrow> cache_sound c \<Longrightarrow>
             (case negamax c (applyMove board i turn) (nextSymbol turn) (depth + 1) of
                (s, c') \<Rightarrow> sign_ok (applyMove board i turn) (nextSymbol turn) s \<and> cache_sound c')"
      proof -
        fix c i assume v: "isMoveValid board i" and i: "i < 9" and c: "cache_sound c"
        have "depth + 1 \<le> filled (applyMove board i turn)"
          using filled_applyMove [OF v i] "1.prems"(2) by simp
        then show "case negamax c (applyMove board i turn) (nextSymbol turn) (depth + 1) of
                (s, c') \<Rightarrow> sign_ok (applyMove board i turn) (nextSymbol turn) s \<and> cache_sound c'"
          using "1.IH" [OF miss None, where x = 0 and y = c and xb = i and xa = NegInf, OF _ refl]
            v c by simp
      qed
      obtain best c where f: "foldl (\<lambda>(best, c) i.
                      if \<not> isMoveValid board i then (best, c)
                      else (case negamax c (applyMove board i turn) (nextSymbol turn) (depth + 1) of
                              (s, c') \<Rightarrow> (if score_gt (negate s) best then negate s else best, c')))
                    (NegInf, cache) [0..<9] = (best, c)"
        by (cases "foldl (\<lambda>(best, c) i.
                      if \<not> isMoveValid board i then (best, c)
                      else (case negamax c (applyMove board i turn) (nextSymbol turn) (depth + 1) of
                              (s, c') \<Rightarrow> (if score_gt (negate s) best then negate s else best, c')))
                    (NegInf, cache) [0..<9]")
      have r: "cache_sound c"
        "nonneg best \<longleftrightarrow> (\<exists>i\<in>set [0..<9]. isMoveValid board i
                              \<and> cannot_win (applyMove board i turn) (nextSymbol turn))"
        "nonpos best \<longleftrightarrow> (\<forall>i\<in>set [0..<9]. isMoveValid board i
                              \<longrightarrow> can_draw (applyMove board i turn) (nextSymbol turn))"
        using negamax_fold_sound [OF ih "1.prems"(1), of "[0..<9]" NegInf False True] f
        by auto
      have "sign_ok board turn best"
        using r(2,3) nt by (auto simp: sign_ok_def can_draw_unfold [of board turn] cannot_win_unfold [of board turn])
      then show ?thesis
        using miss None f r(1)
        by (subst negamax.simps) (auto simp: cache_sound_def)
    qed
  qed
qed


lemma score_gt_irrefl [simp]: "\<not> score_gt a a"
  by (cases a) auto

lemma score_gt_trans: "score_gt a b \<Longrightarrow> \<not> score_gt c b \<Longrightarrow> \<not> score_gt c a"
  by (cases a; cases b; cases c) auto

lemma score_gt_NegInf: "\<not> score_gt s NegInf \<Longrightarrow> s = NegInf"
  by (cases s) auto

text \<open>The first loop of \<open>minimaxPolicy\<close>, up to cell \<open>k\<close>.\<close>

lemma score_moves_prefix:
  assumes step: "\<And>c i. I c \<Longrightarrow> i < 9 \<Longrightarrow> \<not> mask_is msk i 0 \<Longrightarrow>
             (case negamax c (applyMove b i t) (nextSymbol t) 1 of
                (s, c') \<Rightarrow> I c' \<and> Q i (negate s))"
    and "I cache" and "k \<le> 9"
  shows "case foldl (\<lambda>(bestScore, scores, c) i.
              if mask_is msk i 0 then (bestScore, scores, c)
              else
                (case negamax c (applyMove b i t) (nextSymbol t) 1 of
                   (s, c') \<Rightarrow>
                     (if score_gt (negate s) bestScore then negate s else bestScore,
                      scores[i := negate s], c')))
           (NegInf, replicate 9 NegInf, cache) [0..<k] of
         (best, scores, c') \<Rightarrow>
           I c' \<and> length scores = 9
           \<and> (\<forall>i<k. if mask_is msk i 0 then scores ! i = NegInf else Q i (scores ! i))
           \<and> (\<forall>i. k \<le> i \<and> i < 9 \<longrightarrow> scores ! i = NegInf)
           \<and> (\<forall>i<k. \<not> mask_is msk i 0 \<longrightarrow> \<not> score_gt (scores ! i) best)
           \<and> (if \<exists>i<k. \<not> mask_is msk i 0
               then \<exists>i<k. \<not> mask_is msk i 0 \<and> scores ! i = best
               else best = NegInf)"
  using assms(3)
proof (induction k)
  case 0
  then show ?case using assms(2) by simp
next
  case (Suc k)
  let ?F = "\<lambda>(bestScore, scores, c) i.
              if mask_is msk i 0 then (bestScore, scores, c)
              else
                (case negamax c (applyMove b i t) (nextSymbol t) 1 of
                   (s, c') \<Rightarrow>
                     (if score_gt (negate s) bestScore then negate s else bestScore,
                      scores[i := negate s], c'))"
  obtain best scores c where f: "foldl ?F (NegInf, replicate 9 NegInf, cache) [0..<k] = (best, scores, c)"
    by (cases "foldl ?F (NegInf, replicate 9 NegInf, cache) [0..<k]") auto
  have k: "k < 9" using Suc.prems by simp
  have inv: "I c" "length scores = 9"
    "\<forall>i<k. if mask_is msk i 0 then scores ! i = NegInf else Q i (scores ! i)"
    "\<forall>i. k \<le> i \<and> i < 9 \<longrightarrow> scores ! i = NegInf"
    "\<forall>i<k. \<not> mask_is msk i 0 \<longrightarrow> \<not> score_gt (scores ! i) best"
    "if \<exists>i<k. \<not> mask_is msk i 0
               then \<exists>i<k. \<not> mask_is msk i 0 \<and> scores ! i = best
               else best = NegInf"
    using Suc.IH f k by auto
  have unf: "foldl ?F (NegInf, replicate 9 NegInf, cache) [0..<Suc k] = ?F (best, scores, c) k"
    using f by simp
  show ?case
  proof (cases "mask_is msk k 0")
    case True
    have "?F (best, scores, c) k = (best, scores, c)" using True by simp
    moreover have "\<forall>i<Suc k. if mask_is msk i 0 then scores ! i = NegInf else Q i (scores ! i)"
      using inv(3,4) True k by (auto simp: less_Suc_eq)
    moreover have "\<forall>i<Suc k. \<not> mask_is msk i 0 \<longrightarrow> \<not> score_gt (scores ! i) best"
      using inv(5) True by (auto simp: less_Suc_eq)
    moreover have "(\<exists>i<Suc k. \<not> mask_is msk i 0) \<longleftrightarrow> (\<exists>i<k. \<not> mask_is msk i 0)"
      using True by (auto simp: less_Suc_eq)
    moreover have "(\<exists>i<Suc k. \<not> mask_is msk i 0 \<and> scores ! i = best)
                   \<longleftrightarrow> (\<exists>i<k. \<not> mask_is msk i 0 \<and> scores ! i = best)"
      using True by (auto simp: less_Suc_eq)
    ultimately show ?thesis
      unfolding unf using inv(1,2,4,6) by simp
  next
    case False
    obtain s c' where n: "negamax c (applyMove b k t) (nextSymbol t) 1 = (s, c')"
      by (cases "negamax c (applyMove b k t) (nextSymbol t) 1")
    have st: "I c'" "Q k (negate s)" using step [OF inv(1) k False] n by auto
    let ?best = "if score_gt (negate s) best then negate s else best"
    let ?scores = "scores[k := negate s]"
    have F: "?F (best, scores, c) k = (?best, ?scores, c')" using False n by simp
    have nth: "\<And>i. i < 9 \<Longrightarrow> ?scores ! i = (if i = k then negate s else scores ! i)"
      using inv(2) by (simp add: nth_list_update)
    have a: "\<forall>i<Suc k. if mask_is msk i 0 then ?scores ! i = NegInf else Q i (?scores ! i)"
      using inv(3) st(2) False k nth by (auto simp: less_Suc_eq)
    have b: "\<forall>i. Suc k \<le> i \<and> i < 9 \<longrightarrow> ?scores ! i = NegInf"
      using inv(4) nth by auto
    have c: "\<forall>i<Suc k. \<not> mask_is msk i 0 \<longrightarrow> \<not> score_gt (?scores ! i) ?best"
    proof (intro allI impI)
      fix i assume i: "i < Suc k" and m: "\<not> mask_is msk i 0"
      show "\<not> score_gt (?scores ! i) ?best"
      proof (cases "i = k")
        case True
        then show ?thesis using nth [of k] k by auto
      next
        case False
        then have "i < k" using i by simp
        then have "\<not> score_gt (scores ! i) best" using inv(5) m by simp
        moreover have "?scores ! i = scores ! i" using False nth [of i] k \<open>i < k\<close> by simp
        ultimately show ?thesis
          using score_gt_trans [of "negate s" best "scores ! i"] by simp
      qed
    qed
    have d: "\<exists>i<Suc k. \<not> mask_is msk i 0 \<and> ?scores ! i = ?best"
    proof (cases "score_gt (negate s) best")
      case True
      then show ?thesis using False nth [of k] k by auto
    next
      case ngt: False
      show ?thesis
      proof (cases "\<exists>i<k. \<not> mask_is msk i 0")
        case True
        then obtain i where "i < k" "\<not> mask_is msk i 0" "scores ! i = best"
          using inv(6) by auto
        then show ?thesis using ngt nth [of i] k by (auto simp: less_Suc_eq)
      next
        case no: False
        then have "best = NegInf" using inv(6) by simp
        then have "negate s = NegInf" using ngt score_gt_NegInf by simp
        then show ?thesis using False nth [of k] k \<open>best = NegInf\<close> by auto
      qed
    qed
    have e: "\<exists>i<Suc k. \<not> mask_is msk i 0" using False by auto
    show ?thesis
      unfolding unf F using st(1) inv(2) a b c d e by simp
  qed
qed

lemma score_moves_invariant:
  assumes step: "\<And>c i. I c \<Longrightarrow> i < 9 \<Longrightarrow> \<not> mask_is msk i 0 \<Longrightarrow>
             (case negamax c (applyMove b i t) (nextSymbol t) 1 of
                (s, c') \<Rightarrow> I c' \<and> Q i (negate s))"
    and "I cache"
  shows "case score_moves cache b t msk of
         (best, scores, c') \<Rightarrow>
           I c' \<and> length scores = 9
           \<and> (\<forall>i<9. if mask_is msk i 0 then scores ! i = NegInf else Q i (scores ! i))
           \<and> (\<forall>i<9. \<not> mask_is msk i 0 \<longrightarrow> \<not> score_gt (scores ! i) best)
           \<and> ((\<exists>i<9. \<not> mask_is msk i 0)
                \<longrightarrow> (\<exists>i<9. \<not> mask_is msk i 0 \<and> scores ! i = best))"
  using score_moves_prefix [where k = 9 and I = I and Q = Q and msk = msk and b = b and t = t
      and cache = cache, OF step assms(2)]
  unfolding score_moves_def by (auto split: prod.splits if_splits)

lemma list9:
  assumes "length xs = 9"
  obtains x0 x1 x2 x3 x4 x5 x6 x7 x8 where "xs = [x0, x1, x2, x3, x4, x5, x6, x7, x8]"
  using assms by (auto simp: eval_nat_numeral length_Suc_conv)

lemma upt9: "[0..<9] = [0, 1, 2, 3, 4, 5, 6, 7, 8]"
  by (simp add: upt_conv_Cons)

lemma all_less_9:
  "(\<forall>i<9. P i) \<longleftrightarrow> P 0 \<and> P 1 \<and> P 2 \<and> P 3 \<and> P 4 \<and> P 5 \<and> P 6 \<and> P 7 \<and> P (8::nat)"
proof -
  have "(\<forall>i<9. P i) \<longleftrightarrow> (\<forall>i\<in>set [0..<9]. P i)" by auto
  also have "\<dots> \<longleftrightarrow> P 0 \<and> P 1 \<and> P 2 \<and> P 3 \<and> P 4 \<and> P 5 \<and> P 6 \<and> P 7 \<and> P 8"
    unfolding upt9 by simp
  finally show ?thesis .
qed

text \<open>On the mask of a board, a legal distribution sums to 1 and is 0 on the filled cells.\<close>

lemma legal_boardMask:
  assumes "length p = length b"
  shows "legal_distribution p (boardMask b)
         \<longleftrightarrow> sum_list p = 1 \<and> (\<forall>i<length b. b ! i \<noteq> CHR ''_'' \<longrightarrow> p ! i = 0)"
proof -
  let ?m = "boardMask b"
  have m: "\<And>i. i < length b \<Longrightarrow> ?m ! i = (if b ! i = CHR ''_'' then 1 else 0)"
    by (simp add: boardMask_def)
  have z: "list_all (\<lambda>i. ?m ! i = 0 \<longrightarrow> p ! i = 0) [0..<length p]
           \<longleftrightarrow> (\<forall>i<length b. b ! i \<noteq> CHR ''_'' \<longrightarrow> p ! i = 0)"
    using assms m by (auto simp: list_all_iff)
  have s: "sum_list (map (\<lambda>i. if ?m ! i = 1 then p ! i else 0) [0..<length p]) = sum_list p"
    if "\<forall>i<length b. b ! i \<noteq> CHR ''_'' \<longrightarrow> p ! i = 0"
  proof -
    have "map (\<lambda>i. if ?m ! i = 1 then p ! i else 0) [0..<length p] = map ((!) p) [0..<length p]"
      using that assms m by (intro map_cong) auto
    then show ?thesis by (simp add: map_nth)
  qed
  show ?thesis
    unfolding legal_distribution_def z using s assms by (auto simp: boardMask_def)
qed

lemma legal_boardMask9:
  "legal_distribution [p0, p1, p2, p3, p4, p5, p6, p7, p8]
                      (boardMask [b0, b1, b2, b3, b4, b5, b6, b7, b8])
   \<longleftrightarrow> p0 + p1 + p2 + p3 + p4 + p5 + p6 + p7 + p8 = 1
       \<and> (b0 \<noteq> CHR ''_'' \<longrightarrow> p0 = 0) \<and> (b1 \<noteq> CHR ''_'' \<longrightarrow> p1 = 0)
       \<and> (b2 \<noteq> CHR ''_'' \<longrightarrow> p2 = 0) \<and> (b3 \<noteq> CHR ''_'' \<longrightarrow> p3 = 0)
       \<and> (b4 \<noteq> CHR ''_'' \<longrightarrow> p4 = 0) \<and> (b5 \<noteq> CHR ''_'' \<longrightarrow> p5 = 0)
       \<and> (b6 \<noteq> CHR ''_'' \<longrightarrow> p6 = 0) \<and> (b7 \<noteq> CHR ''_'' \<longrightarrow> p7 = 0)
       \<and> (b8 \<noteq> CHR ''_'' \<longrightarrow> p8 = 0)"
proof -
  let ?b = "[b0, b1, b2, b3, b4, b5, b6, b7, b8]"
  let ?p = "[p0, p1, p2, p3, p4, p5, p6, p7, p8]"
  have len: "length ?p = length ?b" by simp
  have nine: "length ?b = 9" by simp
  show ?thesis
    unfolding legal_boardMask [OF len] nine all_less_9 by (simp add: add.assoc)
qed

lemma transform_legal:
  assumes "length b = 9" and "length p = 9" and "legal_distribution p (boardMask b)"
    and "t \<in> set TRANSFORMS"
  shows "legal_distribution (transformDist p (snd t)) (boardMask (transformBoard b (snd t)))"
proof -
  obtain b0 b1 b2 b3 b4 b5 b6 b7 b8 where b: "b = [b0, b1, b2, b3, b4, b5, b6, b7, b8]"
    using assms(1) by (rule list9)
  obtain p0 p1 p2 p3 p4 p5 p6 p7 p8 where p: "p = [p0, p1, p2, p3, p4, p5, p6, p7, p8]"
    using assms(2) by (rule list9)
  have l: "p0 + p1 + p2 + p3 + p4 + p5 + p6 + p7 + p8 = 1"
    and z: "b0 \<noteq> CHR ''_'' \<longrightarrow> p0 = 0" "b1 \<noteq> CHR ''_'' \<longrightarrow> p1 = 0" "b2 \<noteq> CHR ''_'' \<longrightarrow> p2 = 0"
       "b3 \<noteq> CHR ''_'' \<longrightarrow> p3 = 0" "b4 \<noteq> CHR ''_'' \<longrightarrow> p4 = 0" "b5 \<noteq> CHR ''_'' \<longrightarrow> p5 = 0"
       "b6 \<noteq> CHR ''_'' \<longrightarrow> p6 = 0" "b7 \<noteq> CHR ''_'' \<longrightarrow> p7 = 0" "b8 \<noteq> CHR ''_'' \<longrightarrow> p8 = 0"
    using assms(3) unfolding b p legal_boardMask9 by simp_all
  have "snd t \<in> {[0, 1, 2, 3, 4, 5, 6, 7, 8], [2, 5, 8, 1, 4, 7, 0, 3, 6],
                  [8, 7, 6, 5, 4, 3, 2, 1, 0], [6, 3, 0, 7, 4, 1, 8, 5, 2],
                  [6, 7, 8, 3, 4, 5, 0, 1, 2], [2, 1, 0, 5, 4, 3, 8, 7, 6],
                  [0, 3, 6, 1, 4, 7, 2, 5, 8], [8, 5, 2, 7, 4, 1, 6, 3, 0]}"
    using assms(4) by (auto simp: TRANSFORMS_def)
  then show ?thesis
    unfolding b p
    by (elim insertE emptyE)
       (use l z in \<open>simp_all add: transformBoard_def transformDist_def upt9 char_at_def
           eval_nat_numeral legal_boardMask9 ac_simps\<close>)
qed

lemma fill_policy:
  "foldl (\<lambda>pol m. pol[m := p]) pol0 ms
   = map (\<lambda>i. if i \<in> set ms then p else pol0 ! i) [0..<length pol0]"
proof (induction ms arbitrary: pol0)
  case Nil
  then show ?case by (simp add: map_nth)
next
  case (Cons m ms)
  show ?case
    by (simp add: Cons.IH nth_list_update)
qed

lemma sum_list_indicator:
  "sum_list (map (\<lambda>i. if P i then (c::real) else 0) xs) = c * real (length (filter P xs))"
  by (induction xs) (auto simp: algebra_simps)

lemma boardMask_is:
  assumes "i < length b"
  shows "mask_is (boardMask b) i 0 \<longleftrightarrow> b ! i \<noteq> CHR ''_''"
    and "mask_is (boardMask b) i 1 \<longleftrightarrow> b ! i = CHR ''_''"
  using assms by (auto simp: mask_is_def boardMask_def)

text \<open>The policy that \<open>minimaxPolicy\<close> builds from the scores of a board that is not over.\<close>

lemma best_moves_legal:
  assumes len: "length b = 9" and "length scores = 9"
    and ex: "\<exists>i<9. \<not> mask_is (boardMask b) i 0 \<and> scores ! i = best"
    and bm: "bestMoves = filter (\<lambda>i. mask_is (boardMask b) i 1 \<and> scores ! i = best) [0..<9]"
    and p: "p = (if length bestMoves > 0 then 1 / real (length bestMoves) else 0)"
  shows "legal_distribution (foldl (\<lambda>pol m. pol[m := p]) (replicate 9 0) bestMoves) (boardMask b)"
proof -
  let ?policy = "foldl (\<lambda>pol m. pol[m := p]) (replicate 9 0) bestMoves"
  have pol: "?policy = map (\<lambda>i. if i \<in> set bestMoves then p else 0) [0..<9]"
    unfolding fill_policy by (intro map_cong) auto
  from ex obtain i where i: "i < 9" "\<not> mask_is (boardMask b) i 0" "scores ! i = best" by blast
  then have "mask_is (boardMask b) i 1" using boardMask_is [of i b] len by simp
  then have "i \<in> set bestMoves" using i by (simp add: bm)
  then have ne: "0 < length bestMoves" by (cases bestMoves) auto
  have "filter (\<lambda>i. i \<in> set bestMoves) [0..<9] = bestMoves"
    unfolding bm by (intro filter_cong [OF refl, THEN trans [OF _ refl]]) auto
  then have "sum_list ?policy = p * real (length bestMoves)"
    by (simp add: pol sum_list_indicator)
  then have s: "sum_list ?policy = 1" using ne p by simp
  have z: "\<forall>j<length b. b ! j \<noteq> CHR ''_'' \<longrightarrow> ?policy ! j = 0"
  proof (intro allI impI)
    fix j assume j: "j < length b" and f: "b ! j \<noteq> CHR ''_''"
    then have "\<not> mask_is (boardMask b) j 1" using boardMask_is [of j b] by simp
    then have "j \<notin> set bestMoves" by (simp add: bm)
    then show "?policy ! j = 0" using j len by (simp add: pol)
  qed
  have "length ?policy = length b" by (simp add: pol len)
  then show ?thesis using s z by (simp add: legal_boardMask)
qed

lemma minimaxPolicy_cached:
  "policyCache st (cache_key b t) = Some (policy, v) \<Longrightarrow>
   minimaxPolicy st b t = (\<lparr>mp_policy = policy, mp_mask = boardMask b, mp_value = v\<rparr>, st)"
  by (simp add: minimaxPolicy_def)

lemma minimaxPolicy_terminal:
  "policyCache st (cache_key b t) = None \<Longrightarrow> computeWinner b \<noteq> None \<or> CHR ''_'' \<notin> set b \<Longrightarrow>
   minimaxPolicy st b t
   = (\<lparr>mp_policy = replicate 9 0, mp_mask = boardMask b, mp_value = 0\<rparr>,
      st\<lparr>policyCache := (policyCache st)(cache_key b t \<mapsto> (replicate 9 0, 0))\<rparr>)"
  by (auto simp: minimaxPolicy_def Let_def)

lemma minimaxPolicy_search:
  assumes "policyCache st (cache_key b t) = None" and "computeWinner b = None"
    and "CHR ''_'' \<in> set b"
    and "score_moves (negamaxCache st) b t (boardMask b) = (best, scores, c')"
    and "bestMoves = filter (\<lambda>i. mask_is (boardMask b) i 1 \<and> scores ! i = best) [0..<9]"
    and "p = (if length bestMoves > 0 then 1 / real (length bestMoves) else 0)"
    and "policy = foldl (\<lambda>pol m. pol[m := p]) (replicate 9 0) bestMoves"
  shows "minimaxPolicy st b t
   = (\<lparr>mp_policy = policy, mp_mask = boardMask b, mp_value = bounded_ratio best SCORE_WIN\<rparr>,
      \<lparr>negamaxCache = c',
       policyCache = (policyCache st)(cache_key b t \<mapsto> (policy, bounded_ratio best SCORE_WIN))\<rparr>)"
  using assms by (simp add: minimaxPolicy_def Let_def)

lemma mask_fact: "mp_mask (fst (minimaxPolicy st b t)) = boardMask b"
  by (auto simp: minimaxPolicy_def Let_def split: option.splits prod.splits)

text \<open>Every call keeps the cached policies legal, and returns a legal one.\<close>

lemma minimaxPolicy_legal:
  assumes ok: "policy_cache_ok st"
  shows "policy_cache_ok (snd (minimaxPolicy st b t))"
    and "length b = 9 \<Longrightarrow> computeWinner b = None \<Longrightarrow> CHR ''_'' \<in> set b \<Longrightarrow>
         legal_distribution (mp_policy (fst (minimaxPolicy st b t))) (boardMask b)"
proof -
  have "policy_cache_ok (snd (minimaxPolicy st b t))
        \<and> (length b = 9 \<longrightarrow> computeWinner b = None \<longrightarrow> CHR ''_'' \<in> set b \<longrightarrow>
            legal_distribution (mp_policy (fst (minimaxPolicy st b t))) (boardMask b))"
  proof (cases "policyCache st (cache_key b t)")
    case (Some e)
    obtain policy v where e: "e = (policy, v)" by (cases e)
    show ?thesis
      using ok Some e unfolding policy_cache_ok_def
      by (auto simp: minimaxPolicy_cached)
  next
    case None
    show ?thesis
    proof (cases "computeWinner b \<noteq> None \<or> CHR ''_'' \<notin> set b")
      case True
      then show ?thesis
        using ok by (auto simp: minimaxPolicy_terminal [OF None True] policy_cache_ok_def)
    next
      case False
      then have nt: "computeWinner b = None" "CHR ''_'' \<in> set b" by auto
      obtain best scores c' where sm: "score_moves (negamaxCache st) b t (boardMask b) = (best, scores, c')"
        by (cases "score_moves (negamaxCache st) b t (boardMask b)") auto
      define bestMoves where
        "bestMoves = filter (\<lambda>i. mask_is (boardMask b) i 1 \<and> scores ! i = best) [0..<9]"
      define p where "p = (if length bestMoves > 0 then 1 / real (length bestMoves) else 0)"
      define policy where "policy = foldl (\<lambda>pol m. pol[m := p]) (replicate 9 0) bestMoves"
      note res = minimaxPolicy_search [OF None nt sm bestMoves_def p_def policy_def]
      have inv: "length scores = 9"
        "(\<exists>i<9. \<not> mask_is (boardMask b) i 0)
          \<longrightarrow> (\<exists>i<9. \<not> mask_is (boardMask b) i 0 \<and> scores ! i = best)"
        using score_moves_invariant [where I = "\<lambda>c. True" and Q = "\<lambda>i s. True"
            and cache = "negamaxCache st" and b = b and t = t and msk = "boardMask b"] sm
        by (auto split: prod.splits)
      have legal: "legal_distribution policy (boardMask b)" if len: "length b = 9"
      proof -
        from nt(2) obtain i where "i < length b" "b ! i = CHR ''_''"
          by (auto simp: in_set_conv_nth)
        then have "\<exists>i<9. \<not> mask_is (boardMask b) i 0"
          using boardMask_is(1) [of i b] len by auto
        then have "\<exists>i<9. \<not> mask_is (boardMask b) i 0 \<and> scores ! i = best"
          using inv(2) by blast
        then show ?thesis
          unfolding policy_def
          by (rule best_moves_legal [OF len inv(1) _ bestMoves_def p_def])
      qed
      have "policy_cache_ok (snd (minimaxPolicy st b t))"
        using ok legal by (auto simp: res policy_cache_ok_def)
      then show ?thesis using legal by (simp add: res)
    qed
  qed
  then show "policy_cache_ok (snd (minimaxPolicy st b t))"
    and "length b = 9 \<Longrightarrow> computeWinner b = None \<Longrightarrow> CHR ''_'' \<in> set b \<Longrightarrow>
         legal_distribution (mp_policy (fst (minimaxPolicy st b t))) (boardMask b)"
    by auto
qed

lemma reachable_policy_cache_ok: "reachable st \<Longrightarrow> policy_cache_ok st"
proof (induction rule: reachable.induct)
  case fresh
  then show ?case by (simp add: policy_cache_ok_def initial_caches_def)
next
  case (call st board turn)
  then show ?case by (simp add: minimaxPolicy_legal(1))
qed

declare walk.simps [simp del]

lemma foldl_invariant:
  assumes "P a" and "\<And>a x. x \<in> set xs \<Longrightarrow> P a \<Longrightarrow> P (f a x)"
  shows "P (foldl f a xs)"
  using assms by (induction xs arbitrary: a) auto

lemma length_applyMove: "isMoveValid b i \<Longrightarrow> length (applyMove b i t) = length b"
  by (auto simp: isMoveValid_def char_at_def applyMove_def split: if_splits)

lemma walk_open_states:
  "length b = 9 \<Longrightarrow> \<forall>s\<in>set (snd acc). open_state s \<Longrightarrow>
   \<forall>s\<in>set (snd (walk acc b t)). open_state s"
proof (induction acc b t rule: walk.induct)
  case (1 acc board turn)
  obtain seen states where acc: "acc = (seen, states)" by (cases acc)
  show ?case
  proof (cases "cache_key board turn \<in> seen")
    case True
    then show ?thesis using "1.prems" acc by (subst walk.simps) simp
  next
    case new: False
    show ?thesis
    proof (cases "computeWinner board \<noteq> None \<or> CHR ''_'' \<notin> set board")
      case True
      then show ?thesis using "1.prems" acc new by (subst walk.simps) auto
    next
      case False
      let ?f = "\<lambda>acc' i. if \<not> isMoveValid board i then acc'
                          else walk acc' (applyMove board i turn) (nextSymbol turn)"
      let ?a0 = "(insert (cache_key board turn) seen, states @ [(board, turn)])"
      have "open_state (board, turn)" using False "1.prems"(1) by (simp add: open_state_def)
      then have a0: "\<forall>s\<in>set (snd ?a0). open_state s" using "1.prems"(2) acc by auto
      have "\<forall>s\<in>set (snd (foldl ?f ?a0 [0..<9])). open_state s"
      proof (rule foldl_invariant [where P = "\<lambda>a. \<forall>s\<in>set (snd a). open_state s", OF a0])
        fix a :: "string set \<times> (string \<times> PlayerSymbol) list" and x :: nat
        assume x: "x \<in> set [0..<9]" and a: "\<forall>s\<in>set (snd a). open_state s"
        show "\<forall>s\<in>set (snd (?f a x)). open_state s"
        proof (cases "isMoveValid board x")
          case True
          have l9: "length (applyMove board x turn) = 9"
            using length_applyMove [OF True] "1.prems"(1) by simp
          have "\<not> \<not> isMoveValid board x" using True by simp
          from "1.IH" [OF acc [symmetric] new False x this l9 a]
          show ?thesis using True by simp
        next
          case False
          then show ?thesis using a by simp
        qed
      qed
      then show ?thesis using acc new False by (subst walk.simps) simp
    qed
  qed
qed

text \<open>The body of the loop over the states keeps every emitted policy legal.\<close>

lemma emit_state_legal:
  assumes "open_state s" and "policy_cache_ok st"
    and "\<forall>ts\<in>set out. legal_distribution (ts_policy ts) (ts_mask ts)"
    and "emit_state augment (out, dedupe, st) s = (out', dedupe', st')"
  shows "policy_cache_ok st' \<and> (\<forall>ts\<in>set out'. legal_distribution (ts_policy ts) (ts_mask ts))"
proof -
  obtain b t where s: "s = (b, t)" by (cases s)
  obtain res st1 where m: "minimaxPolicy st b t = (res, st1)" by (cases "minimaxPolicy st b t")
  have o: "length b = 9" "computeWinner b = None" "CHR ''_'' \<in> set b"
    using assms(1) s by (simp_all add: open_state_def)
  have ok1: "policy_cache_ok st1" using minimaxPolicy_legal(1) [OF assms(2), of b t] m by simp
  have legal: "legal_distribution (mp_policy res) (boardMask b)"
    using minimaxPolicy_legal(2) [OF assms(2) o, of t] m by simp
  have mask: "mp_mask res = boardMask b" using mask_fact [of st b t] m by simp
  show ?thesis
  proof (cases augment)
    case False
    then show ?thesis
      using assms(3,4) s m ok1 legal mask by (auto simp: emit_state_def split: if_splits)
  next
    case True
    let ?g = "\<lambda>(out', dedupe') t'.
                (let b2 = transformBoard b (snd t');
                     p2 = transformDist (mp_policy res) (snd t');
                     m2 = boardMask b2;
                     k = cache_key b2 t
                 in if k \<in> dedupe' then (out', dedupe')
                    else (out' @ [\<lparr>ts_board = b2, ts_turn = t, ts_policy = p2,
                                    ts_mask = m2, ts_value = mp_value res\<rparr>],
                          insert k dedupe'))"
    have lp: "length (mp_policy res) = 9"
      using legal o(1) by (simp add: legal_distribution_def boardMask_def)
    have "\<forall>ts\<in>set (fst (foldl ?g (out, dedupe) TRANSFORMS)).
            legal_distribution (ts_policy ts) (ts_mask ts)"
    proof (rule foldl_invariant [where P = "\<lambda>a. \<forall>ts\<in>set (fst a).
              legal_distribution (ts_policy ts) (ts_mask ts)"])
      show "\<forall>ts\<in>set (fst (out, dedupe)). legal_distribution (ts_policy ts) (ts_mask ts)"
        using assms(3) by simp
    next
      fix a :: "TeacherState list \<times> string set" and x :: "string \<times> nat list"
      assume x: "x \<in> set TRANSFORMS"
        and a: "\<forall>ts\<in>set (fst a). legal_distribution (ts_policy ts) (ts_mask ts)"
      obtain o1 d1 where a1: "a = (o1, d1)" by (cases a)
      show "\<forall>ts\<in>set (fst (?g a x)). legal_distribution (ts_policy ts) (ts_mask ts)"
        using a transform_legal [OF o(1) lp legal x] by (auto simp: a1 Let_def)
    qed
    then show ?thesis
      using assms(4) s m ok1 True by (auto simp: emit_state_def split: prod.splits)
  qed
qed

lemma emit_all_legal:
  assumes "\<forall>s\<in>set states. open_state s" and "policy_cache_ok st"
    and "\<forall>ts\<in>set out. legal_distribution (ts_policy ts) (ts_mask ts)"
  shows "\<forall>ts\<in>set (fst (foldl (emit_state augment) (out, dedupe, st) states)).
           legal_distribution (ts_policy ts) (ts_mask ts)"
  using assms
proof (induction states arbitrary: out dedupe st)
  case Nil
  then show ?case by simp
next
  case (Cons s states)
  obtain out' dedupe' st' where e: "emit_state augment (out, dedupe, st) s = (out', dedupe', st')"
    by (cases "emit_state augment (out, dedupe, st) s") auto
  have "open_state s" using Cons.prems(1) by simp
  from emit_state_legal [OF this Cons.prems(2,3) e]
  show ?case using Cons.IH [of st' out' dedupe'] Cons.prems(1) e by simp
qed

subsection \<open>Repeated calls\<close>

lemma minimaxPolicy_stores:
  "policyCache (snd (minimaxPolicy st b t)) (cache_key b t)
   = Some (mp_policy (fst (minimaxPolicy st b t)), mp_value (fst (minimaxPolicy st b t)))"
  by (auto simp: minimaxPolicy_def Let_def split: option.splits prod.splits)

lemma minimaxPolicy_keeps:
  "policyCache st k = Some e \<Longrightarrow> policyCache (snd (minimaxPolicy st b t)) k = Some e"
  by (auto simp: minimaxPolicy_def Let_def split: option.splits prod.splits)

lemma later_keeps:
  "later st st' \<Longrightarrow> policyCache st k = Some e \<Longrightarrow> policyCache st' k = Some e"
  by (induction rule: later.induct) (auto intro: minimaxPolicy_keeps)

subsection \<open>Scores below one root\<close>

lemma negamax_fold_bounded:
  assumes ih: "\<And>c i. isMoveValid b i \<Longrightarrow> i < 9 \<Longrightarrow> cache_bounded k c \<Longrightarrow>
             (case negamax c (applyMove b i t) (nextSymbol t) (d + 1) of
                (s, c') \<Rightarrow> bound_ok (d + 1) (applyMove b i t) s \<and> cache_bounded k c')"
    and "cache_bounded k c0" and "set js \<subseteq> {0..<9}"
    and "best0 = NegInf \<or> (\<exists>n. best0 = Num n \<and> - (SCORE_WIN - 2 - d) \<le> n \<and> n \<le> SCORE_WIN - 1 - d)"
    and "d \<le> 8"
  shows "case foldl (\<lambda>(best, c) i.
                      if \<not> isMoveValid b i then (best, c)
                      else (case negamax c (applyMove b i t) (nextSymbol t) (d + 1) of
                              (s, c') \<Rightarrow> (if score_gt (negate s) best then negate s else best, c')))
                    (best0, c0) js of
           (best, c) \<Rightarrow>
             cache_bounded k c
             \<and> (if best0 = NegInf \<and> (\<forall>i\<in>set js. \<not> isMoveValid b i) then best = NegInf
                else \<exists>n. best = Num n \<and> - (SCORE_WIN - 2 - d) \<le> n \<and> n \<le> SCORE_WIN - 1 - d)"
  using assms(2-4)
proof (induction js arbitrary: best0 c0)
  case Nil
  then show ?case by auto
next
  case (Cons j js)
  have js: "set js \<subseteq> {0..<9}" and j9: "j < 9" using Cons.prems(2) by auto
  show ?case
  proof (cases "isMoveValid b j")
    case False
    then show ?thesis using Cons.IH [OF Cons.prems(1) js Cons.prems(3)] by simp
  next
    case True
    obtain s c' where n: "negamax c0 (applyMove b j t) (nextSymbol t) (d + 1) = (s, c')"
      by (cases "negamax c0 (applyMove b j t) (nextSymbol t) (d + 1)")
    have ok: "bound_ok (d + 1) (applyMove b j t) s" and c': "cache_bounded k c'"
      using ih [OF True j9 Cons.prems(1)] n by auto
    from ok obtain m where m: "s = Num m"
      "- (SCORE_WIN - 1 - d) \<le> m" "m \<le> SCORE_WIN - 2 - d"
      using assms(5) by (auto simp: bound_ok_def SCORE_WIN_def split: if_splits)
    define best1 where "best1 = (if score_gt (negate s) best0 then negate s else best0)"
    let ?F = "\<lambda>(best, c) i.
                      if \<not> isMoveValid b i then (best, c)
                      else (case negamax c (applyMove b i t) (nextSymbol t) (d + 1) of
                              (s, c') \<Rightarrow> (if score_gt (negate s) best then negate s else best, c'))"
    have step: "foldl ?F (best0, c0) (j # js) = foldl ?F (best1, c') js"
      using True n by (simp add: best1_def)
    have b: "\<exists>n. best1 = Num n \<and> - (SCORE_WIN - 2 - d) \<le> n \<and> n \<le> SCORE_WIN - 1 - d"
      using m Cons.prems(3) by (auto simp: best1_def)
    then have b': "best1 = NegInf \<or> (\<exists>n. best1 = Num n \<and> - (SCORE_WIN - 2 - d) \<le> n \<and> n \<le> SCORE_WIN - 1 - d)"
      by blast
    have ne: "best1 \<noteq> NegInf" using b by auto
    have v: "\<not> (best0 = NegInf \<and> (\<forall>i\<in>set (j # js). \<not> isMoveValid b i))" using True by simp
    obtain bb cc where r: "foldl ?F (best1, c') js = (bb, cc)"
      by (cases "foldl ?F (best1, c') js")
    have "cache_bounded k cc
          \<and> (\<exists>n. bb = Num n \<and> - (SCORE_WIN - 2 - d) \<le> n \<and> n \<le> SCORE_WIN - 1 - d)"
      using Cons.IH [OF c' js b'] r ne by simp
    then show ?thesis
      unfolding step r using True by simp
  qed
qed

lemma negamax_bounded:
  "cache_bounded k cache \<Longrightarrow> length board = 9 \<Longrightarrow> depth = filled board - k \<Longrightarrow> 0 \<le> k \<Longrightarrow>
   (case negamax cache board turn depth of
      (v, cache') \<Rightarrow> bound_ok depth board v \<and> cache_bounded k cache')"
proof (induction cache board turn depth rule: negamax.induct)
  case (1 cache board turn depth)
  have d9: "depth \<le> 9" using "1.prems"(3,4) filled_le [of board] by simp
  show ?case
  proof (cases "cache (cache_key board turn)")
    case (Some v)
    then show ?thesis
      using "1.prems"(1,3) by (subst negamax.simps) (simp add: cache_bounded_def)
  next
    case None
    note miss = None
    show ?thesis
    proof (cases "terminalScore board depth")
      case (Some v)
      have "bound_ok depth board v"
        using Some d9 by (auto simp: terminalScore_def bound_ok_def SCORE_WIN_def split: if_splits)
      then show ?thesis
        using miss Some "1.prems"(1,2,3)
        by (subst negamax.simps) (auto simp: cache_bounded_def)
    next
      case None
      then have nt: "computeWinner board = None" "CHR ''_'' \<in> set board"
        by (auto simp: terminalScore_def split: if_splits)
      from nt(2) obtain i0 where i0: "i0 < 9" "isMoveValid board i0"
        using "1.prems"(2) by (auto simp: in_set_conv_nth isMoveValid_def char_at_def)
      have "filled board + 1 \<le> 9"
        using filled_applyMove [OF i0(2,1), of turn] filled_le [of "applyMove board i0 turn"] by simp
      then have d8: "depth \<le> 8" using "1.prems"(3,4) by simp
      have ih: "\<And>c i. isMoveValid board i \<Longrightarrow> i < 9 \<Longrightarrow> cache_bounded k c \<Longrightarrow>
             (case negamax c (applyMove board i turn) (nextSymbol turn) (depth + 1) of
                (s, c') \<Rightarrow> bound_ok (depth + 1) (applyMove board i turn) s \<and> cache_bounded k c')"
      proof -
        fix c i assume v: "isMoveValid board i" and i: "i < 9" and c: "cache_bounded k c"
        have l: "length (applyMove board i turn) = 9"
          using length_applyMove [OF v] "1.prems"(2) by simp
        have e: "depth + 1 = filled (applyMove board i turn) - k"
          using filled_applyMove [OF v i] "1.prems"(3) by simp
        have "\<not> \<not> isMoveValid board i" using v by simp
        from "1.IH" [OF miss None, where x = 0 and y = c and xb = i and xa = NegInf, OF _ refl this c l e "1.prems"(4)]
        show "case negamax c (applyMove board i turn) (nextSymbol turn) (depth + 1) of
                (s, c') \<Rightarrow> bound_ok (depth + 1) (applyMove board i turn) s \<and> cache_bounded k c'"
          by simp
      qed
      obtain best c where f: "foldl (\<lambda>(best, c) i.
                      if \<not> isMoveValid board i then (best, c)
                      else (case negamax c (applyMove board i turn) (nextSymbol turn) (depth + 1) of
                              (s, c') \<Rightarrow> (if score_gt (negate s) best then negate s else best, c')))
                    (NegInf, cache) [0..<9] = (best, c)"
        by (cases "foldl (\<lambda>(best, c) i.
                      if \<not> isMoveValid board i then (best, c)
                      else (case negamax c (applyMove board i turn) (nextSymbol turn) (depth + 1) of
                              (s, c') \<Rightarrow> (if score_gt (negate s) best then negate s else best, c')))
                    (NegInf, cache) [0..<9]")
      have "\<not> (\<forall>i\<in>set [0..<9]. \<not> isMoveValid board i)" using i0 by auto
      then have r: "cache_bounded k c"
        "\<exists>n. best = Num n \<and> - (SCORE_WIN - 2 - depth) \<le> n \<and> n \<le> SCORE_WIN - 1 - depth"
        using negamax_fold_bounded [OF ih "1.prems"(1), of "[0..<9]" NegInf] f d8
        by (auto split: if_splits)
      have "bound_ok depth board best"
        using r(2) nt by (auto simp: bound_ok_def)
      then show ?thesis
        using miss None f r(1) "1.prems"(2,3)
        by (subst negamax.simps) (auto simp: cache_bounded_def)
    qed
  qed
qed

lemma filter_upt_eq: "i < n \<Longrightarrow> filter (\<lambda>j. j = i) [0..<n] = [i]"
proof (induction n)
  case 0
  then show ?case by simp
next
  case (Suc n)
  show ?case
  proof (cases "i = n")
    case True
    then have "filter (\<lambda>j. j = i) [0..<n] = []" by (auto simp: filter_empty_conv)
    then show ?thesis using True by simp
  next
    case False
    then show ?thesis using Suc by simp
  qed
qed

lemma filter_upt_single:
  assumes "i < n" and "\<forall>j<n. P j \<longleftrightarrow> j = i"
  shows "filter P [0..<n] = [i]"
proof -
  have "filter P [0..<n] = filter (\<lambda>j. j = i) [0..<n]"
    using assms(2) by (intro filter_cong) auto
  then show ?thesis using filter_upt_eq [OF assms(1)] by simp
qed

lemma filled_nonneg: "0 \<le> filled b"
  by (simp add: filled_def)

subsection \<open>The empty board\<close>

text \<open>A strategy that passes the check proves the outcome.\<close>

lemma strategy_sound:
  "secures_draw b t s \<Longrightarrow> can_draw b t"
  "answers_all b t rs \<Longrightarrow> cannot_win b t"
  "answers_each b t rs js \<Longrightarrow>
     \<forall>j\<in>set js. isMoveValid b j \<longrightarrow> can_draw (applyMove b j t) (nextSymbol t)"
proof (induction b t s and b t rs and b t rs js rule: secures_draw_answers_all_answers_each.induct)
  case (1 board turn i replies)
  then show ?case
    by (subst can_draw_unfold) (auto split: if_splits)
next
  case (2 board turn replies)
  show ?case
  proof (cases "computeWinner board \<noteq> None \<or> CHR ''_'' \<notin> set board")
    case True
    then show ?thesis by (subst cannot_win_unfold) auto
  next
    case False
    then have "answers_each board turn replies [0, 1, 2, 3, 4, 5, 6, 7, 8]"
      using "2.prems" by simp
    then have "\<forall>j\<in>set [0, 1, 2, 3, 4, 5, 6, 7, 8].
                 isMoveValid board j \<longrightarrow> can_draw (applyMove board j turn) (nextSymbol turn)"
      using "2.IH" False by blast
    then have "\<forall>j<9. isMoveValid board j \<longrightarrow> can_draw (applyMove board j turn) (nextSymbol turn)"
      unfolding upt9 [symmetric] by simp
    then show ?thesis by (subst cannot_win_unfold) blast
  qed
next
  case (3 board turn replies)
  then show ?case by simp
next
  case (4 board turn replies j js)
  show ?case
  proof (cases "isMoveValid board j")
    case False
    then show ?thesis using "4.IH"(1) "4.prems" by simp
  next
    case True
    then obtain r rs where r: "replies = r # rs"
      using "4.prems" by (cases replies) simp_all
    have s: "secures_draw (applyMove board j turn) (nextSymbol turn) r"
      and e: "answers_each board turn rs js"
      using "4.prems" True r by (simp_all split: if_splits)
    have "can_draw (applyMove board j turn) (nextSymbol turn)"
      using "4.IH"(2) True r s by simp
    moreover have "\<forall>j\<in>set js. isMoveValid board j
                     \<longrightarrow> can_draw (applyMove board j turn) (nextSymbol turn)"
      using "4.IH"(3) True r s e by simp
    ultimately show ?thesis by simp
  qed
qed

text \<open>The rules of the game on a board of nine cells.\<close>

lemma winner_iff:
  assumes "length b = 9"
  shows "computeWinner b \<noteq> None \<longleftrightarrow> list_ex (line_matches b) WINNING_LINES"
proof (cases "find (line_matches b) WINNING_LINES")
  case None
  then have "\<not> list_ex (line_matches b) WINNING_LINES"
    unfolding find_None_iff list_ex_iff by blast
  moreover have "computeWinner b = None" using None by (simp add: computeWinner_def)
  ultimately show ?thesis by simp
next
  case (Some l)
  then have l: "l \<in> set WINNING_LINES" "line_matches b l"
    by (auto simp: find_Some_iff in_set_conv_nth)
  obtain x y z where xyz: "l = (x, y, z)" by (cases l)
  have "x < 9" using l(1) xyz by (auto simp: WINNING_LINES_def)
  then have "char_at b x \<noteq> None" using assms by (simp add: char_at_def)
  then show ?thesis using Some l xyz by (auto simp: computeWinner_def list_ex_iff)
qed

lemma won9:
  "computeWinner [a, b, c, d, e, f, g, h, i] \<noteq> None \<longleftrightarrow>
       a \<noteq> CHR ''_'' \<and> a = b \<and> b = c \<or>
       d \<noteq> CHR ''_'' \<and> d = e \<and> e = f \<or>
       g \<noteq> CHR ''_'' \<and> g = h \<and> h = i \<or>
       a \<noteq> CHR ''_'' \<and> a = d \<and> d = g \<or>
       b \<noteq> CHR ''_'' \<and> b = e \<and> e = h \<or>
       c \<noteq> CHR ''_'' \<and> c = f \<and> f = i \<or>
       a \<noteq> CHR ''_'' \<and> a = e \<and> e = i \<or>
       c \<noteq> CHR ''_'' \<and> c = e \<and> e = g"
proof -
  have l: "length [a, b, c, d, e, f, g, h, i] = 9" by simp
  show ?thesis
    unfolding winner_iff [OF l]
    by (simp add: WINNING_LINES_def line_matches_def char_at_def)
qed

lemma full9:
  "CHR ''_'' \<notin> set [a, b, c, d, e, f, g, h, i] \<longleftrightarrow>
     a \<noteq> CHR ''_'' \<and> b \<noteq> CHR ''_'' \<and> c \<noteq> CHR ''_'' \<and> d \<noteq> CHR ''_'' \<and> e \<noteq> CHR ''_'' \<and> f \<noteq> CHR ''_'' \<and> g \<noteq> CHR ''_'' \<and> h \<noteq> CHR ''_'' \<and> i \<noteq> CHR ''_''"
  by auto

lemma valid9:
  "isMoveValid [a, b, c, d, e, f, g, h, i] 0 \<longleftrightarrow> a = CHR ''_''"
  "isMoveValid [a, b, c, d, e, f, g, h, i] 1 \<longleftrightarrow> b = CHR ''_''"
  "isMoveValid [a, b, c, d, e, f, g, h, i] 2 \<longleftrightarrow> c = CHR ''_''"
  "isMoveValid [a, b, c, d, e, f, g, h, i] 3 \<longleftrightarrow> d = CHR ''_''"
  "isMoveValid [a, b, c, d, e, f, g, h, i] 4 \<longleftrightarrow> e = CHR ''_''"
  "isMoveValid [a, b, c, d, e, f, g, h, i] 5 \<longleftrightarrow> f = CHR ''_''"
  "isMoveValid [a, b, c, d, e, f, g, h, i] 6 \<longleftrightarrow> g = CHR ''_''"
  "isMoveValid [a, b, c, d, e, f, g, h, i] 7 \<longleftrightarrow> h = CHR ''_''"
  "isMoveValid [a, b, c, d, e, f, g, h, i] 8 \<longleftrightarrow> i = CHR ''_''"
  by (simp_all add: isMoveValid_def char_at_def)

lemma apply9:
  "applyMove [a, b, c, d, e, f, g, h, i] 0 t = [symbol_char t, b, c, d, e, f, g, h, i]"
  "applyMove [a, b, c, d, e, f, g, h, i] 1 t = [a, symbol_char t, c, d, e, f, g, h, i]"
  "applyMove [a, b, c, d, e, f, g, h, i] 2 t = [a, b, symbol_char t, d, e, f, g, h, i]"
  "applyMove [a, b, c, d, e, f, g, h, i] 3 t = [a, b, c, symbol_char t, e, f, g, h, i]"
  "applyMove [a, b, c, d, e, f, g, h, i] 4 t = [a, b, c, d, symbol_char t, f, g, h, i]"
  "applyMove [a, b, c, d, e, f, g, h, i] 5 t = [a, b, c, d, e, symbol_char t, g, h, i]"
  "applyMove [a, b, c, d, e, f, g, h, i] 6 t = [a, b, c, d, e, f, symbol_char t, h, i]"
  "applyMove [a, b, c, d, e, f, g, h, i] 7 t = [a, b, c, d, e, f, g, symbol_char t, i]"
  "applyMove [a, b, c, d, e, f, g, h, i] 8 t = [a, b, c, d, e, f, g, h, symbol_char t]"
  by (simp_all add: applyMove_def)

lemma marks:
  "CHR ''X'' = CHR ''_'' \<longleftrightarrow> False" "CHR ''O'' = CHR ''_'' \<longleftrightarrow> False"
  "CHR ''X'' = CHR ''O'' \<longleftrightarrow> False" "CHR ''O'' = CHR ''X'' \<longleftrightarrow> False"
  "CHR ''_'' = CHR ''X'' \<longleftrightarrow> False" "CHR ''_'' = CHR ''O'' \<longleftrightarrow> False"
  "symbol_char SymX = CHR ''X''" "symbol_char SymO = CHR ''O''"
  "nextSymbol SymX = SymO" "nextSymbol SymO = SymX"
  by (simp_all add: symbol_char_def nextSymbol_def)

lemma cells:
  "(0::nat) < 9" "(1::nat) < 9" "(2::nat) < 9" "(3::nat) < 9" "(4::nat) < 9"
  "(5::nat) < 9" "(6::nat) < 9" "(7::nat) < 9" "(8::nat) < 9"
  by simp_all

lemmas play = secures_draw.simps answers_all.simps answers_each.simps won9 full9 valid9 apply9
  marks cells simp_thms if_True if_False list.case

text \<open>The strategies pass the check.\<close>

lemma second_player_draws_checked: "answers_all ''_________'' SymX second_player_draws"
  unfolding second_player_draws_def
  by (simp only: play cong: if_weak_cong list.case_cong_weak)

lemma first_player_draws_0_checked: "answers_all ''X________'' SymO first_player_draws_0"
  unfolding first_player_draws_0_def
  by (simp only: play cong: if_weak_cong list.case_cong_weak)

lemma first_player_draws_1_checked: "answers_all ''_X_______'' SymO first_player_draws_1"
  unfolding first_player_draws_1_def
  by (simp only: play cong: if_weak_cong list.case_cong_weak)

lemma first_player_draws_2_checked: "answers_all ''__X______'' SymO first_player_draws_2"
  unfolding first_player_draws_2_def
  by (simp only: play cong: if_weak_cong list.case_cong_weak)

lemma first_player_draws_3_checked: "answers_all ''___X_____'' SymO first_player_draws_3"
  unfolding first_player_draws_3_def
  by (simp only: play cong: if_weak_cong list.case_cong_weak)

lemma first_player_draws_4_checked: "answers_all ''____X____'' SymO first_player_draws_4"
  unfolding first_player_draws_4_def
  by (simp only: play cong: if_weak_cong list.case_cong_weak)

lemma first_player_draws_5_checked: "answers_all ''_____X___'' SymO first_player_draws_5"
  unfolding first_player_draws_5_def
  by (simp only: play cong: if_weak_cong list.case_cong_weak)

lemma first_player_draws_6_checked: "answers_all ''______X__'' SymO first_player_draws_6"
  unfolding first_player_draws_6_def
  by (simp only: play cong: if_weak_cong list.case_cong_weak)

lemma first_player_draws_7_checked: "answers_all ''_______X_'' SymO first_player_draws_7"
  unfolding first_player_draws_7_def
  by (simp only: play cong: if_weak_cong list.case_cong_weak)

lemma first_player_draws_8_checked: "answers_all ''________X'' SymO first_player_draws_8"
  unfolding first_player_draws_8_def
  by (simp only: play cong: if_weak_cong list.case_cong_weak)

text \<open>After each opening, the second player can hold the draw, and cannot win.\<close>

lemma empty_board_open:
  "computeWinner ''_________'' = None" "CHR ''_'' \<in> set ''_________''"
  using won9 [of "CHR ''_''" "CHR ''_''" "CHR ''_''" "CHR ''_''" "CHR ''_''" "CHR ''_''"
      "CHR ''_''" "CHR ''_''" "CHR ''_''"] by simp_all

lemma opening_drawn:
  assumes "i < 9"
  shows "can_draw (applyMove ''_________'' i SymX) SymO"
    and "cannot_win (applyMove ''_________'' i SymX) SymO"
proof -
  have "cannot_win ''_________'' SymX"
    using second_player_draws_checked by (rule strategy_sound)
  then have "\<forall>i<9. isMoveValid ''_________'' i \<longrightarrow> can_draw (applyMove ''_________'' i SymX) SymO"
    by (subst (asm) cannot_win_unfold) (simp add: empty_board_open marks)
  moreover have "isMoveValid ''_________'' i"
    using assms by (simp add: isMoveValid_def char_at_def nth_Cons' )
  ultimately show "can_draw (applyMove ''_________'' i SymX) SymO"
    using assms by blast
  have "\<forall>i<9. cannot_win (applyMove ''_________'' i SymX) SymO"
    unfolding all_less_9 apply9 marks
    using first_player_draws_0_checked first_player_draws_1_checked first_player_draws_2_checked
      first_player_draws_3_checked first_player_draws_4_checked first_player_draws_5_checked
      first_player_draws_6_checked first_player_draws_7_checked first_player_draws_8_checked
    by (intro conjI strategy_sound(2))
  then show "cannot_win (applyMove ''_________'' i SymX) SymO"
    using assms by blast
qed

lemma drawn_score:
  assumes "sign_ok b t s" and "can_draw b t" and "cannot_win b t"
  shows "s = Num 0"
  using assms by (cases s) (simp_all add: sign_ok_def)

text \<open>Any move among the first nine cells leaves a board with a filled cell.\<close>

lemma filled_after_move:
  assumes "i < 9"
  shows "1 \<le> filled (applyMove b i t)"
proof -
  define j where "j = min i (length b)"
  have j: "j < 9" using assms by (simp add: j_def)
  have "length (take i b) = j" by (simp add: j_def min.commute)
  then have "applyMove b i t ! j = symbol_char t" "j < length (applyMove b i t)"
    by (simp_all add: applyMove_def nth_append)
  moreover have "symbol_char t \<noteq> CHR ''_''" by (cases t) (simp_all add: symbol_char_def)
  ultimately have "\<not> isMoveValid (applyMove b i t) j"
    by (simp add: isMoveValid_def char_at_def)
  then have "j \<in> set (filter (\<lambda>j. \<not> isMoveValid (applyMove b i t) j) [0..<9])"
    using j by simp
  then have "0 < length (filter (\<lambda>j. \<not> isMoveValid (applyMove b i t) j) [0..<9])"
    by (rule length_pos_if_in_set)
  then show ?thesis unfolding filled_def by linarith
qed

text \<open>Every call keeps the signs of the cached scores right.\<close>

lemma score_moves_sound:
  assumes "cache_sound cache"
  shows "case score_moves cache b t msk of
         (best, scores, c') \<Rightarrow>
           cache_sound c' \<and> length scores = 9
           \<and> (\<forall>i<9. if mask_is msk i 0 then scores ! i = NegInf
                     else sign_ok (applyMove b i t) (nextSymbol t) (negate (scores ! i)))
           \<and> (\<forall>i<9. \<not> mask_is msk i 0 \<longrightarrow> \<not> score_gt (scores ! i) best)
           \<and> ((\<exists>i<9. \<not> mask_is msk i 0)
                \<longrightarrow> (\<exists>i<9. \<not> mask_is msk i 0 \<and> scores ! i = best))"
proof (rule score_moves_invariant [where I = cache_sound
      and Q = "\<lambda>i s. sign_ok (applyMove b i t) (nextSymbol t) (negate s)", OF _ assms])
  fix c :: negamax_cache and i :: nat
  assume c: "cache_sound c" and i: "i < 9"
  have n: "negate (negate s) = s" for s by (cases s) simp_all
  show "case negamax c (applyMove b i t) (nextSymbol t) 1 of
          (s, c') \<Rightarrow> cache_sound c' \<and> sign_ok (applyMove b i t) (nextSymbol t) (negate (negate s))"
    using negamax_sound [OF c filled_after_move [OF i], where b1 = b and t1 = t
        and turn = "nextSymbol t"]
    by (simp add: n split: prod.splits)
qed

lemma minimaxPolicy_sound:
  assumes "cache_sound (negamaxCache st)"
  shows "cache_sound (negamaxCache (snd (minimaxPolicy st b t)))"
  using assms score_moves_sound [OF assms, where b = b and t = t and msk = "boardMask b"]
  by (auto simp: minimaxPolicy_def Let_def split: option.splits prod.splits)

text \<open>The search of the empty board, from any cache with the right signs.\<close>

lemma empty_board_search:
  assumes "cache_sound (negamaxCache st)"
    and miss: "policyCache st (cache_key ''_________'' SymX) = None"
  shows "\<exists>c'. minimaxPolicy st ''_________'' SymX
         = (\<lparr>mp_policy = replicate 9 (1 / 9), mp_mask = replicate 9 1, mp_value = 0\<rparr>,
            \<lparr>negamaxCache = c',
             policyCache = (policyCache st)(cache_key ''_________'' SymX \<mapsto> (replicate 9 (1 / 9), 0))\<rparr>)"
proof -
  let ?b = "''_________''"
  have msk: "boardMask ?b = [1, 1, 1, 1, 1, 1, 1, 1, 1]" by (simp add: boardMask_def)
  obtain best scores c' where sm:
    "score_moves (negamaxCache st) ?b SymX (boardMask ?b) = (best, scores, c')"
    by (cases "score_moves (negamaxCache st) ?b SymX (boardMask ?b)") auto
  have open_cells: "\<not> mask_is (boardMask ?b) i 0" for i
    by (simp add: msk mask_is_def nth_Cons')
  have inv: "length scores = 9"
    "\<forall>i<9. sign_ok (applyMove ?b i SymX) (nextSymbol SymX) (negate (scores ! i))"
    "(\<exists>i::nat. i < 9) \<longrightarrow> (\<exists>i<9. scores ! i = best)"
    using score_moves_sound [OF assms(1), where b = ?b and t = SymX and msk = "boardMask ?b"]
      sm open_cells
    by auto
  have zero: "scores ! i = Num 0" if i: "i < 9" for i
  proof -
    have "sign_ok (applyMove ?b i SymX) SymO (negate (scores ! i))"
      using inv(2) i by (simp add: marks)
    then have "negate (scores ! i) = Num 0"
      using opening_drawn [OF i] by (rule drawn_score)
    then show ?thesis by (cases "scores ! i") simp_all
  qed
  moreover have "\<exists>i::nat. i < 9" by (rule exI [of _ 0]) simp
  ultimately have best: "best = Num 0" using inv(3) by auto
  have moves: "filter (\<lambda>i. mask_is (boardMask ?b) i 1 \<and> scores ! i = best) [0..<9] = [0..<9]"
    unfolding filter_id_conv using zero best by (simp add: msk mask_is_def nth_Cons')
  have policy: "foldl (\<lambda>pol m. pol[m := 1 / 9]) (replicate 9 (0::real)) [0..<9] = replicate 9 (1 / 9)"
    unfolding upt9 by (simp add: eval_nat_numeral)
  note nw = empty_board_open
  have "minimaxPolicy st ?b SymX
        = (\<lparr>mp_policy = replicate 9 (1 / 9), mp_mask = boardMask ?b,
             mp_value = bounded_ratio best SCORE_WIN\<rparr>,
           \<lparr>negamaxCache = c',
            policyCache = (policyCache st)
              (cache_key ?b SymX \<mapsto> (replicate 9 (1 / 9), bounded_ratio best SCORE_WIN))\<rparr>)"
    by (rule minimaxPolicy_search [OF miss nw sm moves [symmetric], where p = "1 / 9"])
      (simp_all add: policy)
  moreover have "boardMask ?b = replicate 9 1" by (simp add: msk eval_nat_numeral)
  ultimately show ?thesis by (simp add: best SCORE_WIN_def)
qed

text \<open>
  In every state that a program can reach, the signs of the cached scores are right, and
  the cached policy of the empty board, if there is one, is the uniform one.
\<close>

lemma reachable_sound:
  assumes "reachable st"
  shows "cache_sound (negamaxCache st)
         \<and> (\<forall>e. policyCache st (cache_key ''_________'' SymX) = Some e
                \<longrightarrow> e = (replicate 9 (1 / 9), 0))"
  using assms
proof (induction rule: reachable.induct)
  case fresh
  then show ?case by (simp add: initial_caches_def cache_sound_def)
next
  case (call st board turn)
  then have c: "cache_sound (negamaxCache st)"
    and e: "\<forall>e. policyCache st (cache_key ''_________'' SymX) = Some e
                \<longrightarrow> e = (replicate 9 (1 / 9), 0)"
    by simp_all
  have "policyCache (snd (minimaxPolicy st board turn)) (cache_key ''_________'' SymX) = Some e'
        \<Longrightarrow> e' = (replicate 9 (1 / 9), 0)" for e'
  proof (cases "policyCache st (cache_key ''_________'' SymX)")
    case (Some e0)
    assume "policyCache (snd (minimaxPolicy st board turn)) (cache_key ''_________'' SymX) = Some e'"
    then have "e' = e0" using minimaxPolicy_keeps [OF Some, of board turn] by simp
    then show ?thesis using e Some by simp
  next
    case None
    assume a: "policyCache (snd (minimaxPolicy st board turn)) (cache_key ''_________'' SymX) = Some e'"
    show ?thesis
    proof (cases "board = ''_________'' \<and> turn = SymX")
      case True
      then show ?thesis using empty_board_search [OF c None] a by auto
    next
      case False
      then have "cache_key board turn \<noteq> cache_key ''_________'' SymX" by simp
      then have "policyCache (snd (minimaxPolicy st board turn)) (cache_key ''_________'' SymX)
                 = policyCache st (cache_key ''_________'' SymX)"
        by (auto simp: minimaxPolicy_def Let_def split: option.splits prod.splits)
      then show ?thesis using a None by simp
    qed
  qed
  then show ?case using minimaxPolicy_sound [OF c] by blast
qed

text \<open>
  C1: in every state of the caches that a program can reach, \<open>minimaxPolicy\<close> on the empty
  board with \<open>X\<close> to move returns the value 0 and the policy that gives the probability
  1/9 to each of the nine openings.
\<close>

theorem empty_board_uniform:
  assumes "reachable st"
  shows "fst (minimaxPolicy st ''_________'' SymX)
         = \<lparr>mp_policy = replicate 9 (1 / 9), mp_mask = replicate 9 1, mp_value = 0\<rparr>"
proof (cases "policyCache st (cache_key ''_________'' SymX)")
  case None
  show ?thesis
    using empty_board_search [OF conjunct1 [OF reachable_sound [OF assms]] None] by auto
next
  case (Some e)
  then have e: "e = (replicate 9 (1 / 9), 0)"
    using reachable_sound [OF assms] by blast
  have "boardMask ''_________'' = replicate 9 1" by (simp add: boardMask_def eval_nat_numeral)
  then show ?thesis
    using minimaxPolicy_cached [of st "''_________''" SymX "replicate 9 (1 / 9)" 0] Some e by simp
qed

theorem empty_board_uniform_witness:
  "fst (minimaxPolicy initial_caches ''_________'' SymX)
   = \<lparr>mp_policy = [1 / 9, 1 / 9, 1 / 9, 1 / 9, 1 / 9, 1 / 9, 1 / 9, 1 / 9, 1 / 9],
      mp_mask = [1, 1, 1, 1, 1, 1, 1, 1, 1], mp_value = 0\<rparr>"
  using empty_board_uniform [OF reachable.fresh] by (simp add: eval_nat_numeral)

subsection \<open>A single winning move\<close>

lemma open9:
  "computeWinner [a, b, c, d, e, f, g, h, i] = None \<longleftrightarrow>
     \<not> (a \<noteq> CHR ''_'' \<and> a = b \<and> b = c \<or>
       d \<noteq> CHR ''_'' \<and> d = e \<and> e = f \<or>
       g \<noteq> CHR ''_'' \<and> g = h \<and> h = i \<or>
       a \<noteq> CHR ''_'' \<and> a = d \<and> d = g \<or>
       b \<noteq> CHR ''_'' \<and> b = e \<and> e = h \<or>
       c \<noteq> CHR ''_'' \<and> c = f \<and> f = i \<or>
       a \<noteq> CHR ''_'' \<and> a = e \<and> e = i \<or>
       c \<noteq> CHR ''_'' \<and> c = e \<and> e = g)"
  unfolding won9 [symmetric] by simp

text \<open>
  C2, as amended: from empty caches, on every board of nine cells that is not won and on
  which exactly one legal move completes a line for the side to move, \<open>minimaxPolicy\<close>
  gives that move the probability 1 and returns the value 0.9: the score of a win at
  depth 1, \<open>SCORE_WIN - 1\<close>, over \<open>SCORE_WIN\<close>.
\<close>

theorem forced_win_fresh:
  assumes len: "length board = 9" and nw: "computeWinner board = None"
    and i: "i < 9" "isMoveValid board i" "computeWinner (applyMove board i turn) \<noteq> None"
    and others: "\<forall>j<9. j \<noteq> i \<longrightarrow> isMoveValid board j
                   \<longrightarrow> computeWinner (applyMove board j turn) = None"
  shows "fst (minimaxPolicy initial_caches board turn)
         = \<lparr>mp_policy = (replicate 9 0)[i := 1], mp_mask = boardMask board, mp_value = 9 / 10\<rparr>"
proof -
  let ?msk = "boardMask board"
  let ?k = "filled board"
  let ?Q = "\<lambda>j s. if j = i then s = Num 9 else (\<exists>n. s = Num n \<and> n \<le> 8)"
  have valid: "\<And>j. j < 9 \<Longrightarrow> \<not> mask_is ?msk j 0 \<longleftrightarrow> isMoveValid board j"
    using len by (simp add: boardMask_is isMoveValid_def char_at_def)
  have valid1: "\<And>j. j < 9 \<Longrightarrow> mask_is ?msk j 1 \<longleftrightarrow> isMoveValid board j"
    using len by (simp add: boardMask_is isMoveValid_def char_at_def)
  have step: "\<And>c j. cache_bounded ?k c \<Longrightarrow> j < 9 \<Longrightarrow> \<not> mask_is ?msk j 0 \<Longrightarrow>
             (case negamax c (applyMove board j turn) (nextSymbol turn) 1 of
                (s, c') \<Rightarrow> cache_bounded ?k c' \<and> ?Q j (negate s))"
  proof -
    fix c j assume c: "cache_bounded ?k c" and j: "j < 9" and m: "\<not> mask_is ?msk j 0"
    have v: "isMoveValid board j" using valid [OF j] m by simp
    have l: "length (applyMove board j turn) = 9" using length_applyMove [OF v] len by simp
    have d: "1 = filled (applyMove board j turn) - ?k" using filled_applyMove [OF v j] by simp
    obtain s c' where n: "negamax c (applyMove board j turn) (nextSymbol turn) 1 = (s, c')"
      by (cases "negamax c (applyMove board j turn) (nextSymbol turn) 1")
    have b: "bound_ok 1 (applyMove board j turn) s" and c': "cache_bounded ?k c'"
      using negamax_bounded [OF c l d filled_nonneg, of "nextSymbol turn"] n by auto
    have "?Q j (negate s)"
    proof (cases "j = i")
      case True
      then show ?thesis using b i(3) by (auto simp: bound_ok_def SCORE_WIN_def)
    next
      case False
      then have "computeWinner (applyMove board j turn) = None" using others j v by simp
      then show ?thesis using b False by (auto simp: bound_ok_def SCORE_WIN_def)
    qed
    then show "case negamax c (applyMove board j turn) (nextSymbol turn) 1 of
                (s, c') \<Rightarrow> cache_bounded ?k c' \<and> ?Q j (negate s)"
      using n c' by simp
  qed
  have c0: "cache_bounded ?k (negamaxCache initial_caches)"
    by (simp add: cache_bounded_def initial_caches_def)
  obtain best scores c' where sm:
    "score_moves (negamaxCache initial_caches) board turn ?msk = (best, scores, c')"
    by (cases "score_moves (negamaxCache initial_caches) board turn ?msk") auto
  have inv: "length scores = 9"
    "\<forall>j<9. if mask_is ?msk j 0 then scores ! j = NegInf else ?Q j (scores ! j)"
    "\<forall>j<9. \<not> mask_is ?msk j 0 \<longrightarrow> \<not> score_gt (scores ! j) best"
    "(\<exists>j<9. \<not> mask_is ?msk j 0) \<longrightarrow> (\<exists>j<9. \<not> mask_is ?msk j 0 \<and> scores ! j = best)"
    using score_moves_invariant [where I = "cache_bounded ?k" and Q = ?Q
        and cache = "negamaxCache initial_caches" and b = board and t = turn and msk = ?msk,
        OF step c0] sm
    by simp_all
  have ui: "\<not> mask_is ?msk i 0" using valid [OF i(1)] i(2) by simp
  have si: "scores ! i = Num 9" using inv(2) i(1) ui by auto
  obtain j where j: "j < 9" "\<not> mask_is ?msk j 0" "scores ! j = best"
    using inv(4) i(1) ui by blast
  have best: "best = Num 9"
  proof (cases "j = i")
    case True
    then show ?thesis using j si by simp
  next
    case False
    have "if mask_is ?msk j 0 then scores ! j = NegInf else ?Q j (scores ! j)"
      using inv(2) j(1) by blast
    then have "\<exists>n. scores ! j = Num n \<and> n \<le> 8" using j(2) False by simp
    then obtain n where "scores ! j = Num n" "n \<le> 8" by blast
    then have "score_gt (scores ! i) best" using j si by simp
    then show ?thesis using inv(3) i(1) ui by blast
  qed
  have single: "\<forall>j<9. (mask_is ?msk j 1 \<and> scores ! j = best) \<longleftrightarrow> j = i"
  proof (intro allI impI)
    fix j :: nat assume j: "j < 9"
    show "(mask_is ?msk j 1 \<and> scores ! j = best) \<longleftrightarrow> j = i"
    proof (cases "j = i")
      case True
      then show ?thesis using si best valid1 [OF i(1)] i(2) by simp
    next
      case False
      show ?thesis
      proof (cases "isMoveValid board j")
        case True
        have "if mask_is ?msk j 0 then scores ! j = NegInf else ?Q j (scores ! j)"
          using inv(2) j by blast
        then have "\<exists>n. scores ! j = Num n \<and> n \<le> 8"
          using True valid [OF j] False by simp
        then show ?thesis using False best by auto
      next
        case nv: False
        then show ?thesis using False valid1 [OF j] by simp
      qed
    qed
  qed
  have bm: "filter (\<lambda>j. mask_is ?msk j 1 \<and> scores ! j = best) [0..<9] = [i]"
    using filter_upt_single [OF i(1) single] .
  have miss: "policyCache initial_caches (cache_key board turn) = None"
    by (simp add: initial_caches_def)
  have us: "CHR ''_'' \<in> set board"
    using i(2) by (auto simp: isMoveValid_def char_at_def in_set_conv_nth split: if_splits)
  show ?thesis
    using minimaxPolicy_search [OF miss nw us sm bm [symmetric] refl refl]
    by (simp add: best SCORE_WIN_def)
qed

lemma forced_win_example:
  "computeWinner ''XX_OOX__O'' = None"
  "isMoveValid ''XX_OOX__O'' 2"
  "computeWinner (applyMove ''XX_OOX__O'' 2 SymX) \<noteq> None"
  "\<forall>j<9. j \<noteq> 2 \<longrightarrow> isMoveValid ''XX_OOX__O'' j
          \<longrightarrow> computeWinner (applyMove ''XX_OOX__O'' j SymX) = None"
proof -
  show "computeWinner ''XX_OOX__O'' = None" unfolding open9 by (simp add: marks)
  show "isMoveValid ''XX_OOX__O'' 2" by (simp add: valid9)
  show "computeWinner (applyMove ''XX_OOX__O'' 2 SymX) \<noteq> None"
    unfolding apply9 won9 by (simp add: marks)
  show "\<forall>j<9. j \<noteq> 2 \<longrightarrow> isMoveValid ''XX_OOX__O'' j
          \<longrightarrow> computeWinner (applyMove ''XX_OOX__O'' j SymX) = None"
    unfolding all_less_9 apply9 open9 valid9 by (simp add: marks)
qed

theorem forced_win_fresh_witness:
  "fst (minimaxPolicy initial_caches ''XX_OOX__O'' SymX)
   = \<lparr>mp_policy = [0, 0, 1, 0, 0, 0, 0, 0, 0], mp_mask = [0, 0, 1, 0, 0, 0, 1, 1, 0],
      mp_value = 9 / 10\<rparr>"
  using forced_win_fresh [of "''XX_OOX__O''" 2 SymX, OF _ forced_win_example(1) _
      forced_win_example(2-4)]
  by (simp add: boardMask_def eval_nat_numeral)

text \<open>
  C2 as stated fails in its value: on the board \<open>XX_OOX__O\<close> with \<open>X\<close> to move, cell 2 is
  the only move that completes a line; it gets the probability 1, and the value returned
  is 0.9, not 1.
\<close>

theorem forced_win_value_counterexample:
  "filter (\<lambda>i. isMoveValid ''XX_OOX__O'' i
                \<and> computeWinner (applyMove ''XX_OOX__O'' i SymX) \<noteq> None) [0..<9] = [2]
   \<and> fst (minimaxPolicy initial_caches ''XX_OOX__O'' SymX)
     = \<lparr>mp_policy = [0, 0, 1, 0, 0, 0, 0, 0, 0], mp_mask = [0, 0, 1, 0, 0, 0, 1, 1, 0],
        mp_value = 9 / 10\<rparr>"
proof (intro conjI)
  show "filter (\<lambda>i. isMoveValid ''XX_OOX__O'' i
                \<and> computeWinner (applyMove ''XX_OOX__O'' i SymX) \<noteq> None) [0..<9] = [2]"
    unfolding upt9
    by (simp only: filter.simps valid9 apply9 won9 marks simp_thms if_True if_False)
  show "fst (minimaxPolicy initial_caches ''XX_OOX__O'' SymX)
     = \<lparr>mp_policy = [0, 0, 1, 0, 0, 0, 0, 0, 0], mp_mask = [0, 0, 1, 0, 0, 0, 1, 1, 0],
        mp_value = 9 / 10\<rparr>"
    by (simp add: minimaxPolicy_def initial_caches_def Let_def score_moves_def upt9
        negamax.simps terminalScore_def computeWinner_def WINNING_LINES_def line_matches_def
        char_at_def cache_key_def SCORE_WIN_def isMoveValid_def applyMove_def symbol_char_def
        nextSymbol_def boardMask_def mask_is_def eval_nat_numeral)
qed

text \<open>
  The cache of \<open>negamax\<close> is keyed by the board and the side to move, and the score it
  holds depends on the depth at which the board was first searched. After a call on the
  board one move earlier, the same winning move is read from the cache with the score of
  depth 2, and the value returned is 0.8.
\<close>

lemma forced_win_after_call:
  "mp_value (fst (minimaxPolicy (snd (minimaxPolicy initial_caches ''XX_O_X__O'' SymO))
                    ''XX_OOX__O'' SymX)) = 8 / 10"
  by (simp add: minimaxPolicy_def initial_caches_def Let_def score_moves_def upt9
      negamax.simps terminalScore_def computeWinner_def WINNING_LINES_def line_matches_def
      char_at_def cache_key_def SCORE_WIN_def isMoveValid_def applyMove_def symbol_char_def
      nextSymbol_def boardMask_def mask_is_def eval_nat_numeral)

subsection \<open>The dataset\<close>

text \<open>The dataset is not empty: its first state is the empty board.\<close>

lemma walk_extends: "\<exists>ext. snd (walk acc b t) = snd acc @ ext"
proof (induction acc b t rule: walk.induct)
  case (1 acc board turn)
  obtain seen states where acc: "acc = (seen, states)" by (cases acc)
  show ?case
  proof (cases "cache_key board turn \<in> seen")
    case True
    then show ?thesis using acc by (subst walk.simps) simp
  next
    case new: False
    show ?thesis
    proof (cases "computeWinner board \<noteq> None \<or> CHR ''_'' \<notin> set board")
      case True
      then show ?thesis using acc new by (subst walk.simps) auto
    next
      case False
      let ?f = "\<lambda>acc' i. if \<not> isMoveValid board i then acc'
                          else walk acc' (applyMove board i turn) (nextSymbol turn)"
      let ?a0 = "(insert (cache_key board turn) seen, states @ [(board, turn)])"
      have "\<exists>ext. snd (foldl ?f ?a0 [0..<9]) = snd acc @ ext"
      proof (rule foldl_invariant [where P = "\<lambda>a. \<exists>ext. snd a = snd acc @ ext"])
        show "\<exists>ext. snd ?a0 = snd acc @ ext" using acc by simp
      next
        fix a :: "string set \<times> (string \<times> PlayerSymbol) list" and x :: nat
        assume x: "x \<in> set [0..<9]" and a: "\<exists>ext. snd a = snd acc @ ext"
        show "\<exists>ext. snd (?f a x) = snd acc @ ext"
        proof (cases "isMoveValid board x")
          case True
          have "\<not> \<not> isMoveValid board x" using True by simp
          from "1.IH" [OF acc [symmetric] new False x this]
          obtain e1 where "snd (walk a (applyMove board x turn) (nextSymbol turn)) = snd a @ e1"
            by blast
          moreover obtain e0 where "snd a = snd acc @ e0" using a by blast
          ultimately have "snd (walk a (applyMove board x turn) (nextSymbol turn))
                           = snd acc @ (e0 @ e1)" by simp
          then show ?thesis using True by auto
        next
          case False
          then show ?thesis using a by simp
        qed
      qed
      then show ?thesis using acc new False by (subst walk.simps) simp
    qed
  qed
qed

lemma walk_first:
  "\<exists>ext. snd (walk ({}, []) ''_________'' SymX) = (''_________'', SymX) # ext"
proof -
  let ?b = "''_________''"
  let ?f = "\<lambda>acc' i. if \<not> isMoveValid ?b i then acc'
                      else walk acc' (applyMove ?b i SymX) (nextSymbol SymX)"
  let ?a0 = "(insert (cache_key ?b SymX) {}, [] @ [(?b, SymX)])"
  have "\<exists>ext. snd (foldl ?f ?a0 [0..<9]) = (?b, SymX) # ext"
  proof (rule foldl_invariant [where P = "\<lambda>a. \<exists>ext. snd a = (?b, SymX) # ext"])
    show "\<exists>ext. snd ?a0 = (?b, SymX) # ext" by simp
  next
    fix a :: "string set \<times> (string \<times> PlayerSymbol) list" and x :: nat
    assume a: "\<exists>ext. snd a = (?b, SymX) # ext"
    then obtain e0 where e0: "snd a = (?b, SymX) # e0" by blast
    obtain e1 where "snd (walk a (applyMove ?b x SymX) (nextSymbol SymX)) = snd a @ e1"
      using walk_extends by blast
    then have "snd (walk a (applyMove ?b x SymX) (nextSymbol SymX)) = (?b, SymX) # (e0 @ e1)"
      using e0 by simp
    then show "\<exists>ext. snd (?f a x) = (?b, SymX) # ext" using a by auto
  qed
  then show ?thesis
    using empty_board_open by (subst walk.simps) simp
qed

lemma emit_state_extends:
  "\<exists>ext. fst (emit_state augment (out, dedupe, st) s) = out @ ext"
proof -
  obtain b t where s: "s = (b, t)" by (cases s)
  obtain res st1 where m: "minimaxPolicy st b t = (res, st1)" by (cases "minimaxPolicy st b t")
  show ?thesis
  proof (cases augment)
    case False
    then show ?thesis using s m by (simp add: emit_state_def)
  next
    case True
    let ?g = "\<lambda>(out', dedupe') t'.
                (let b2 = transformBoard b (snd t');
                     p2 = transformDist (mp_policy res) (snd t');
                     m2 = boardMask b2;
                     k = cache_key b2 t
                 in if k \<in> dedupe' then (out', dedupe')
                    else (out' @ [\<lparr>ts_board = b2, ts_turn = t, ts_policy = p2,
                                    ts_mask = m2, ts_value = mp_value res\<rparr>],
                          insert k dedupe'))"
    have "\<exists>ext. fst (foldl ?g (out, dedupe) TRANSFORMS) = out @ ext"
    proof (rule foldl_invariant [where P = "\<lambda>a. \<exists>ext. fst a = out @ ext"])
      show "\<exists>ext. fst (out, dedupe) = out @ ext" by simp
    next
      fix a :: "TeacherState list \<times> string set" and x :: "string \<times> nat list"
      assume "\<exists>ext. fst a = out @ ext"
      then obtain e0 where e0: "fst a = out @ e0" by blast
      obtain o1 d1 where a1: "a = (o1, d1)" by (cases a)
      show "\<exists>ext. fst (?g a x) = out @ ext"
        using e0 by (auto simp: a1 Let_def)
    qed
    then show ?thesis
      using s m True by (auto simp: emit_state_def split: prod.splits)
  qed
qed

lemma emit_state_first: "fst (emit_state augment ([], {}, st) s) \<noteq> []"
proof -
  obtain b t where s: "s = (b, t)" by (cases s)
  obtain res st1 where m: "minimaxPolicy st b t = (res, st1)" by (cases "minimaxPolicy st b t")
  show ?thesis
  proof (cases augment)
    case False
    then show ?thesis using s m by (simp add: emit_state_def)
  next
    case True
    let ?g = "\<lambda>(out', dedupe') t'.
                (let b2 = transformBoard b (snd t');
                     p2 = transformDist (mp_policy res) (snd t');
                     m2 = boardMask b2;
                     k = cache_key b2 t
                 in if k \<in> dedupe' then (out', dedupe')
                    else (out' @ [\<lparr>ts_board = b2, ts_turn = t, ts_policy = p2,
                                    ts_mask = m2, ts_value = mp_value res\<rparr>],
                          insert k dedupe'))"
    obtain x xs where t: "TRANSFORMS = x # xs" by (simp add: TRANSFORMS_def)
    have "fst (foldl ?g (?g ([], {}) x) xs) \<noteq> []"
    proof (rule foldl_invariant [where P = "\<lambda>a. fst a \<noteq> []"])
      show "fst (?g ([], {}) x) \<noteq> []" by (simp add: Let_def)
    next
      fix a :: "TeacherState list \<times> string set" and x :: "string \<times> nat list"
      assume a: "fst a \<noteq> []"
      obtain o1 d1 where a1: "a = (o1, d1)" by (cases a)
      show "fst (?g a x) \<noteq> []" using a by (auto simp: a1 Let_def)
    qed
    then have "fst (foldl ?g ([], {}) TRANSFORMS) \<noteq> []"
      by (simp only: t foldl_Cons simp_thms)
    then show ?thesis
      using s m True by (auto simp: emit_state_def split: prod.splits)
  qed
qed

lemma dataset_nonempty: "fst (generateTeacherDataset options st) \<noteq> []"
proof -
  obtain seen states where w: "walk ({}, []) ''_________'' SymX = (seen, states)"
    by (cases "walk ({}, []) ''_________'' SymX")
  then obtain ext where states: "states = (''_________'', SymX) # ext"
    using walk_first by auto
  define augment where
    "augment = (case options of None \<Rightarrow> True
                | Some opts \<Rightarrow> (case augmentSymmetries opts of None \<Rightarrow> True | Some a \<Rightarrow> a))"
  have "fst (foldl (emit_state augment)
             (emit_state augment ([], {}, st) (''_________'', SymX)) ext) \<noteq> []"
  proof (rule foldl_invariant [where P = "\<lambda>a. fst a \<noteq> []"])
    show "fst (emit_state augment ([], {}, st) (''_________'', SymX)) \<noteq> []"
      by (rule emit_state_first)
  next
    fix a :: "TeacherState list \<times> string set \<times> Caches" and x :: "string \<times> PlayerSymbol"
    assume a: "fst a \<noteq> []"
    obtain o1 d1 s1 where a1: "a = (o1, d1, s1)" by (cases a)
    show "fst (emit_state augment a x) \<noteq> []"
      using a emit_state_extends [of augment o1 d1 s1 x] by (auto simp: a1)
  qed
  then show ?thesis
    using w states
    by (auto simp: generateTeacherDataset_def Let_def augment_def split: prod.splits)
qed

text \<open>
  C8: in every state of the caches that a program can reach, and with or without the
  symmetries, every state that \<open>generateTeacherDataset\<close> emits has a policy that sums to 1
  over the cells where its mask is 1 and is 0 where its mask is 0.
\<close>

theorem dataset_policies_legal:
  assumes "reachable st"
  shows "\<forall>ts\<in>set (fst (generateTeacherDataset options st)).
           legal_distribution (ts_policy ts) (ts_mask ts)"
proof -
  obtain seen states where w: "walk ({}, []) ''_________'' SymX = (seen, states)"
    by (cases "walk ({}, []) ''_________'' SymX")
  have "\<forall>s\<in>set (snd (walk ({}, []) ''_________'' SymX)). open_state s"
    by (rule walk_open_states) simp_all
  then have st: "\<forall>s\<in>set states. open_state s" using w by simp
  have ok: "policy_cache_ok st" using assms by (rule reachable_policy_cache_ok)
  define augment where
    "augment = (case options of None \<Rightarrow> True
                | Some opts \<Rightarrow> (case augmentSymmetries opts of None \<Rightarrow> True | Some a \<Rightarrow> a))"
  have "\<forall>ts\<in>set (fst (foldl (emit_state augment) ([], {}, st) states)).
           legal_distribution (ts_policy ts) (ts_mask ts)"
    by (rule emit_all_legal [OF st ok]) simp
  then show ?thesis
    using w by (auto simp: generateTeacherDataset_def Let_def augment_def split: prod.splits)
qed

theorem dataset_policies_legal_witness:
  "fst (generateTeacherDataset None initial_caches) \<noteq> []
   \<and> list_all (\<lambda>ts. legal_distribution (ts_policy ts) (ts_mask ts))
        (fst (generateTeacherDataset None initial_caches))"
  using dataset_policies_legal [OF reachable.fresh, of None]
    dataset_nonempty [of None initial_caches]
  by (simp add: list_all_iff)

subsection \<open>Determinism\<close>

text \<open>
  C9: after a call of \<open>minimaxPolicy\<close> on a board and a side to move, every later call on
  them, after any number of calls on any boards, returns the same policy, mask and
  value as the first one.
\<close>

theorem minimaxPolicy_deterministic:
  assumes "later (snd (minimaxPolicy st board turn)) st'"
  shows "fst (minimaxPolicy st' board turn) = fst (minimaxPolicy st board turn)"
proof -
  let ?r = "fst (minimaxPolicy st board turn)"
  have "policyCache st' (cache_key board turn) = Some (mp_policy ?r, mp_value ?r)"
    using later_keeps [OF assms minimaxPolicy_stores] .
  then have "fst (minimaxPolicy st' board turn)
             = \<lparr>mp_policy = mp_policy ?r, mp_mask = boardMask board, mp_value = mp_value ?r\<rparr>"
    by (simp add: minimaxPolicy_cached)
  also have "\<dots> = ?r" using mask_fact [of st board turn] by simp
  finally show ?thesis .
qed

theorem minimaxPolicy_deterministic_witness:
  "fst (minimaxPolicy
          (snd (minimaxPolicy (snd (minimaxPolicy initial_caches ''XX_OOX__O'' SymX))
                  ''_________'' SymX))
          ''XX_OOX__O'' SymX)
   = fst (minimaxPolicy initial_caches ''XX_OOX__O'' SymX)"
  using minimaxPolicy_deterministic [OF later.then_call [OF later.now]] .

end
